theory Spec2Isabelle
  imports Complex_Main "HOL-Library.Word"
begin

unbundle bit_operations_syntax

section \<open>The pygame event module (src/event.c) over SDL2\<close>

text \<open>
  C integers: \<open>Uint32\<close> and \<open>SDL_EventType\<close> are \<open>32 word\<close> (arithmetic wraps),
  \<open>Uint8\<close> is \<open>8 word\<close>, \<open>Sint16\<close> is \<open>16 word\<close> read with \<open>sint\<close>. A C \<open>int\<close> that only
  holds small values (event type numbers, flags, return codes) is an \<open>int\<close>; where the
  code mixes it with an unsigned operand the usual arithmetic conversion is written
  out with \<open>word_of_int\<close>, and an unsigned value stored into an \<open>int\<close> is read with \<open>sint\<close>.
  Pointers are addresses (\<open>nat\<close>), \<open>NULL\<close> is address 0.
\<close>

type_synonym Uint32 = "32 word"
type_synonym SDL_EventType = "32 word"
type_synonym ptr = nat

definition NULL :: ptr where
  "NULL = 0"

subsection \<open>Constants of the SDL2 headers\<close>

text \<open>
  The numeric values below are those of SDL2's public headers (SDL_events.h, SDL_video.h,
  SDL_joystick.h, SDL_keycode.h, SDL_mouse.h), the external library event.c is compiled
  against.
\<close>

definition SDL_QUIT :: SDL_EventType where "SDL_QUIT = 0x100"
definition SDL_WINDOWEVENT :: SDL_EventType where "SDL_WINDOWEVENT = 0x200"
definition SDL_SYSWMEVENT :: SDL_EventType where "SDL_SYSWMEVENT = 0x201"
definition SDL_KEYDOWN :: SDL_EventType where "SDL_KEYDOWN = 0x300"
definition SDL_KEYUP :: SDL_EventType where "SDL_KEYUP = 0x301"
definition SDL_MOUSEMOTION :: SDL_EventType where "SDL_MOUSEMOTION = 0x400"
definition SDL_MOUSEBUTTONDOWN :: SDL_EventType where "SDL_MOUSEBUTTONDOWN = 0x401"
definition SDL_MOUSEBUTTONUP :: SDL_EventType where "SDL_MOUSEBUTTONUP = 0x402"
definition SDL_JOYAXISMOTION :: SDL_EventType where "SDL_JOYAXISMOTION = 0x600"
definition SDL_JOYBALLMOTION :: SDL_EventType where "SDL_JOYBALLMOTION = 0x601"
definition SDL_JOYHATMOTION :: SDL_EventType where "SDL_JOYHATMOTION = 0x602"
definition SDL_JOYBUTTONDOWN :: SDL_EventType where "SDL_JOYBUTTONDOWN = 0x603"
definition SDL_JOYBUTTONUP :: SDL_EventType where "SDL_JOYBUTTONUP = 0x604"

lemmas SDL_type_defs =
  SDL_QUIT_def SDL_WINDOWEVENT_def SDL_SYSWMEVENT_def SDL_KEYDOWN_def SDL_KEYUP_def
  SDL_MOUSEMOTION_def SDL_MOUSEBUTTONDOWN_def SDL_MOUSEBUTTONUP_def SDL_JOYAXISMOTION_def
  SDL_JOYBALLMOTION_def SDL_JOYHATMOTION_def SDL_JOYBUTTONDOWN_def SDL_JOYBUTTONUP_def

definition SDL_WINDOWEVENT_EXPOSED :: "8 word" where "SDL_WINDOWEVENT_EXPOSED = 3"
definition SDL_WINDOWEVENT_RESIZED :: "8 word" where "SDL_WINDOWEVENT_RESIZED = 5"
definition SDL_WINDOWEVENT_MINIMIZED :: "8 word" where "SDL_WINDOWEVENT_MINIMIZED = 7"
definition SDL_WINDOWEVENT_RESTORED :: "8 word" where "SDL_WINDOWEVENT_RESTORED = 9"
definition SDL_WINDOWEVENT_ENTER :: "8 word" where "SDL_WINDOWEVENT_ENTER = 10"
definition SDL_WINDOWEVENT_LEAVE :: "8 word" where "SDL_WINDOWEVENT_LEAVE = 11"
definition SDL_WINDOWEVENT_FOCUS_GAINED :: "8 word" where "SDL_WINDOWEVENT_FOCUS_GAINED = 12"
definition SDL_WINDOWEVENT_FOCUS_LOST :: "8 word" where "SDL_WINDOWEVENT_FOCUS_LOST = 13"

lemmas SDL_window_defs =
  SDL_WINDOWEVENT_EXPOSED_def SDL_WINDOWEVENT_RESIZED_def SDL_WINDOWEVENT_MINIMIZED_def
  SDL_WINDOWEVENT_RESTORED_def SDL_WINDOWEVENT_ENTER_def SDL_WINDOWEVENT_LEAVE_def
  SDL_WINDOWEVENT_FOCUS_GAINED_def SDL_WINDOWEVENT_FOCUS_LOST_def

text \<open>\<open>#define PGE_NON_SDL_EVENT ((SDL_EventType)-1)\<close> and \<open>#define PGE_ALLEVENTS ((Uint32)-1)\<close>.\<close>

definition PGE_NON_SDL_EVENT :: SDL_EventType where
  "PGE_NON_SDL_EVENT = - 1"

definition PGE_ALLEVENTS :: Uint32 where
  "PGE_ALLEVENTS = - 1"

definition USEROBJECT_CHECK1 :: "32 word" where
  "USEROBJECT_CHECK1 = 0xDEADBEEF"

definition USEROBJECT_CHECK2 :: ptr where
  "USEROBJECT_CHECK2 = 0xFEEDF00D"

subsection \<open>The pygame event enumeration\<close>

text \<open>
  The \<open>PGE_*\<close> enumeration is declared in pygame.h, which is not among the sources. Its
  values are taken as a parameter: every function that mentions a \<open>PGE_*\<close> constant
  receives the record \<open>K\<close> that holds them.
\<close>

record pge =
  PGE_NOEVENT :: int
  PGE_ACTIVEEVENT :: int
  PGE_KEYDOWN :: int
  PGE_KEYUP :: int
  PGE_MOUSEMOTION :: int
  PGE_MOUSEBUTTONDOWN :: int
  PGE_MOUSEBUTTONUP :: int
  PGE_JOYAXISMOTION :: int
  PGE_JOYBALLMOTION :: int
  PGE_JOYHATMOTION :: int
  PGE_JOYBUTTONDOWN :: int
  PGE_JOYBUTTONUP :: int
  PGE_QUIT :: int
  PGE_SYSWMEVENT :: int
  PGE_VIDEORESIZE :: int
  PGE_VIDEOEXPOSE :: int
  PGE_OTHEREVENT :: int
  PGE_USEREVENT :: int
  PGE_NUMEVENTS :: int
  PGE_APPFOCUSMOUSE :: int
  PGE_APPINPUTFOCUS :: int
  PGE_APPACTIVE :: int

text \<open>
  The labels of one C \<open>switch\<close> are pairwise different (the compiler rejects a duplicate
  label): the fourteen labels of \<open>pg_type_to_sdl\<close>, which with \<open>PGE_NOEVENT\<close> are the
  labels of \<open>name_from_eventtype\<close>.
\<close>

definition switch_labels :: "pge \<Rightarrow> int list" where
  "switch_labels K =
     [PGE_ACTIVEEVENT K, PGE_VIDEOEXPOSE K, PGE_VIDEORESIZE K, PGE_KEYDOWN K, PGE_KEYUP K,
      PGE_MOUSEMOTION K, PGE_MOUSEBUTTONDOWN K, PGE_MOUSEBUTTONUP K, PGE_JOYAXISMOTION K,
      PGE_JOYBALLMOTION K, PGE_JOYHATMOTION K, PGE_JOYBUTTONDOWN K, PGE_JOYBUTTONUP K,
      PGE_QUIT K, PGE_SYSWMEVENT K]"

definition labels_distinct :: "pge \<Rightarrow> bool" where
  "labels_distinct K \<longleftrightarrow> distinct (PGE_NOEVENT K # switch_labels K)"

text \<open>
  The numbering of SDL 1.2, which pygame's event types follow, with the fallback type
  in the first reserved slot: the instance used for concrete runs.
\<close>

definition legacy :: pge where
  "legacy = \<lparr> PGE_NOEVENT = 0, PGE_ACTIVEEVENT = 1, PGE_KEYDOWN = 2, PGE_KEYUP = 3,
     PGE_MOUSEMOTION = 4, PGE_MOUSEBUTTONDOWN = 5, PGE_MOUSEBUTTONUP = 6,
     PGE_JOYAXISMOTION = 7, PGE_JOYBALLMOTION = 8, PGE_JOYHATMOTION = 9,
     PGE_JOYBUTTONDOWN = 10, PGE_JOYBUTTONUP = 11, PGE_QUIT = 12, PGE_SYSWMEVENT = 13,
     PGE_VIDEORESIZE = 16, PGE_VIDEOEXPOSE = 17, PGE_OTHEREVENT = 14, PGE_USEREVENT = 24,
     PGE_NUMEVENTS = 32, PGE_APPFOCUSMOUSE = 1, PGE_APPINPUTFOCUS = 2, PGE_APPACTIVE = 4 \<rparr>"

subsection \<open>Native event records\<close>

text \<open>
  \<open>SDL_Event\<close> is a C union; the record has one field for each member the module
  reads, named after its path in the union (\<open>e->key.repeat\<close> is \<open>key_repeat\<close>). The
  overlap of the members in memory is not modelled: the fields are independent.
  \<open>key_timestamp\<close> is the timestamp every member starts with.
\<close>

record SDL_Event =
  type :: SDL_EventType
  key_timestamp :: Uint32
  key_repeat :: "8 word"
  key_keysym_sym :: int
  key_keysym_mod :: "16 word"
  key_keysym_scancode :: int
  window_windowID :: int
  window_event :: "8 word"
  window_data1 :: int
  window_data2 :: int
  motion_x :: int
  motion_y :: int
  motion_xrel :: int
  motion_yrel :: int
  motion_state :: "32 word"
  button_x :: int
  button_y :: int
  button_button :: int
  jaxis_which :: int
  jaxis_axis :: int
  jaxis_value :: "16 word"
  jball_which :: int
  jball_ball :: int
  jball_xrel :: int
  jball_yrel :: int
  jhat_which :: int
  jhat_hat :: int
  jhat_value :: "8 word"
  jbutton_which :: int
  jbutton_button :: int
  user_code :: "32 word"
  user_data1 :: ptr
  user_data2 :: ptr

text \<open>An all-zero record (what \<open>memset\<close> would give); concrete events are updates of it.\<close>

definition zero_event :: SDL_Event where
  "zero_event = \<lparr> type = 0, key_timestamp = 0, key_repeat = 0, key_keysym_sym = 0,
     key_keysym_mod = 0, key_keysym_scancode = 0, window_windowID = 0, window_event = 0,
     window_data1 = 0, window_data2 = 0, motion_x = 0, motion_y = 0, motion_xrel = 0,
     motion_yrel = 0, motion_state = 0, button_x = 0, button_y = 0, button_button = 0,
     jaxis_which = 0, jaxis_axis = 0, jaxis_value = 0, jball_which = 0, jball_ball = 0,
     jball_xrel = 0, jball_yrel = 0, jhat_which = 0, jhat_hat = 0, jhat_value = 0,
     jbutton_which = 0, jbutton_button = 0, user_code = 0, user_data1 = 0, user_data2 = 0 \<rparr>"

definition keydown :: "Uint32 \<Rightarrow> 8 word \<Rightarrow> SDL_Event" where
  "keydown ts rep = zero_event\<lparr>type := SDL_KEYDOWN, key_timestamp := ts, key_repeat := rep\<rparr>"

subsection \<open>Key repeat handling\<close>

record KeyRepeat =
  delay :: int
  interval :: int
  firsttime :: int
  timestamp :: int

text \<open>\<open>Py_EnableKeyRepeat\<close>: the return code and the new value of the static \<open>repeat\<close>.\<close>

definition Py_EnableKeyRepeat :: "int \<Rightarrow> int \<Rightarrow> KeyRepeat \<Rightarrow> int \<times> KeyRepeat" where
  "Py_EnableKeyRepeat d i repeat =
     (if d < 0 \<or> i < 0 then (- 1, repeat)
      else (0, \<lparr>delay = d, interval = i, firsttime = 0, timestamp = 0\<rparr>))"

definition repeat_enabled :: "KeyRepeat \<Rightarrow> bool" where
  "repeat_enabled r \<longleftrightarrow> delay r > 0 \<or> interval r > 0"

text \<open>
  \<open>Py_PollEvent\<close>. \<open>SDL_PollEvent (e)\<close> takes the event at the front of the native queue
  into \<open>*e\<close> and returns 1, or returns 0 on an empty queue. The queue is the list of the
  events still to come, and the loop is a recursion on it. The arguments are the static
  \<open>repeat\<close>, the buffer \<open>*e\<close> and the queue; the result is the return code with their
  new values.

  The operands of the two timestamp comparisons are an \<open>int\<close> and a \<open>Uint32\<close>: C
  subtracts and compares them as unsigned 32-bit values.
\<close>

fun Py_PollEvent ::
  "KeyRepeat \<Rightarrow> SDL_Event \<Rightarrow> SDL_Event list \<Rightarrow> int \<times> KeyRepeat \<times> SDL_Event \<times> SDL_Event list"
where
  "Py_PollEvent repeat e [] = (0, repeat, e, [])"
| "Py_PollEvent repeat e0 (e # q) =
     (if type e = SDL_KEYDOWN then
        (if key_repeat e \<noteq> 0 then
           (if \<not> repeat_enabled repeat then Py_PollEvent repeat e q
            else if firsttime repeat \<noteq> 0 then
              (if (word_of_int (timestamp repeat) - key_timestamp e :: 32 word)
                    < word_of_int (delay repeat)
               then Py_PollEvent repeat e q
               else (1, repeat\<lparr>firsttime := 0, timestamp := sint (key_timestamp e)\<rparr>, e, q))
            else if (key_timestamp e - word_of_int (timestamp repeat) :: 32 word)
                      < word_of_int (interval repeat)
              then Py_PollEvent repeat e q
            else (1, repeat\<lparr>timestamp := sint (key_timestamp e)\<rparr>, e, q))
         else if repeat_enabled repeat
           then (1, repeat\<lparr>firsttime := 1, timestamp := sint (key_timestamp e)\<rparr>, e, q)
         else (1, repeat, e, q))
      else (1, repeat, e, q))"

text \<open>
  \<open>n\<close> successive calls of \<open>Py_PollEvent\<close>, as a caller polling in a loop makes them:
  the events the calls returned, in order.
\<close>

fun poll_n :: "nat \<Rightarrow> KeyRepeat \<Rightarrow> SDL_Event \<Rightarrow> SDL_Event list \<Rightarrow> SDL_Event list" where
  "poll_n 0 repeat e q = []"
| "poll_n (Suc n) repeat e q =
     (case Py_PollEvent repeat e q of
        (rcode, repeat', e', q') \<Rightarrow>
          (if rcode \<noteq> 0 then e' # poll_n n repeat' e' q' else poll_n n repeat' e' q'))"

text \<open>
  The threshold algorithm in the words of the specification (section 4.3), for a
  repeat keydown with timestamp \<open>ts\<close> while repeat is enabled: the state is the flag
  "first repeat pending" and the saved timestamp; the result says whether the event is
  suppressed, with the new state.
\<close>

definition spec_repeat_step :: "int \<Rightarrow> int \<Rightarrow> bool \<times> int \<Rightarrow> int \<Rightarrow> bool \<times> bool \<times> int" where
  "spec_repeat_step d i st ts =
     (case st of (pending, saved) \<Rightarrow>
        if pending then (if ts - saved \<ge> d then (False, False, ts) else (True, pending, saved))
        else (if ts - saved \<ge> i then (False, False, ts) else (True, pending, saved)))"

text \<open>The timestamps the specification's algorithm lets through, of a run of repeat keydowns.\<close>

fun spec_allowed :: "int \<Rightarrow> int \<Rightarrow> bool \<times> int \<Rightarrow> int list \<Rightarrow> int list" where
  "spec_allowed d i st [] = []"
| "spec_allowed d i st (ts # tss) =
     (case spec_repeat_step d i st ts of
        (suppressed, st') \<Rightarrow>
          (if suppressed then spec_allowed d i st' tss else ts # spec_allowed d i st' tss))"

subsection \<open>Translation between native codes and pygame types\<close>

text \<open>
  The statics \<open>first_user_event\<close> and \<open>last_user_event\<close>, both initialised to
  \<open>PGE_NON_SDL_EVENT\<close>.
\<close>

record band =
  first_user_event :: SDL_EventType
  last_user_event :: SDL_EventType

definition initial_band :: band where
  "initial_band =
     \<lparr>first_user_event = PGE_NON_SDL_EVENT, last_user_event = PGE_NON_SDL_EVENT\<rparr>"

text \<open>
  \<open>sdl_to_pg\<close>. The labels of the C \<open>switch\<close> are distinct constants, so the chain of
  tests below takes the same branch. A window event with a sub-event the inner
  \<open>switch\<close> does not list leaves both switches and is \<open>PGE_OTHEREVENT\<close>. In the user
  band the sum is unsigned and is returned as an \<open>int\<close>.
\<close>

definition sdl_to_pg :: "pge \<Rightarrow> band \<Rightarrow> SDL_Event \<Rightarrow> int" where
  "sdl_to_pg K B e =
     (if type e = SDL_WINDOWEVENT then
        (if window_event e = SDL_WINDOWEVENT_ENTER \<or> window_event e = SDL_WINDOWEVENT_LEAVE
            \<or> window_event e = SDL_WINDOWEVENT_FOCUS_GAINED
            \<or> window_event e = SDL_WINDOWEVENT_FOCUS_LOST
            \<or> window_event e = SDL_WINDOWEVENT_MINIMIZED
            \<or> window_event e = SDL_WINDOWEVENT_RESTORED then PGE_ACTIVEEVENT K
         else if window_event e = SDL_WINDOWEVENT_RESIZED then PGE_VIDEORESIZE K
         else if window_event e = SDL_WINDOWEVENT_EXPOSED then PGE_VIDEOEXPOSE K
         else PGE_OTHEREVENT K)
      else if type e = SDL_KEYDOWN then PGE_KEYDOWN K
      else if type e = SDL_KEYUP then PGE_KEYUP K
      else if type e = SDL_MOUSEMOTION then PGE_MOUSEMOTION K
      else if type e = SDL_MOUSEBUTTONDOWN then PGE_MOUSEBUTTONDOWN K
      else if type e = SDL_MOUSEBUTTONUP then PGE_MOUSEBUTTONUP K
      else if type e = SDL_JOYAXISMOTION then PGE_JOYAXISMOTION K
      else if type e = SDL_JOYBALLMOTION then PGE_JOYBALLMOTION K
      else if type e = SDL_JOYHATMOTION then PGE_JOYHATMOTION K
      else if type e = SDL_JOYBUTTONDOWN then PGE_JOYBUTTONDOWN K
      else if type e = SDL_JOYBUTTONUP then PGE_JOYBUTTONUP K
      else if type e = SDL_QUIT then PGE_QUIT K
      else if type e = SDL_SYSWMEVENT then PGE_SYSWMEVENT K
      else if type e \<ge> first_user_event B \<and> type e \<le> last_user_event B
        then sint (type e - first_user_event B + word_of_int (PGE_USEREVENT K))
      else PGE_OTHEREVENT K)"

definition pg_type_to_sdl :: "pge \<Rightarrow> band \<Rightarrow> int \<Rightarrow> SDL_EventType" where
  "pg_type_to_sdl K B pge_type =
     (if pge_type = PGE_ACTIVEEVENT K \<or> pge_type = PGE_VIDEOEXPOSE K
         \<or> pge_type = PGE_VIDEORESIZE K then SDL_WINDOWEVENT
      else if pge_type = PGE_KEYDOWN K then SDL_KEYDOWN
      else if pge_type = PGE_KEYUP K then SDL_KEYUP
      else if pge_type = PGE_MOUSEMOTION K then SDL_MOUSEMOTION
      else if pge_type = PGE_MOUSEBUTTONDOWN K then SDL_MOUSEBUTTONDOWN
      else if pge_type = PGE_MOUSEBUTTONUP K then SDL_MOUSEBUTTONUP
      else if pge_type = PGE_JOYAXISMOTION K then SDL_JOYAXISMOTION
      else if pge_type = PGE_JOYBALLMOTION K then SDL_JOYBALLMOTION
      else if pge_type = PGE_JOYHATMOTION K then SDL_JOYHATMOTION
      else if pge_type = PGE_JOYBUTTONDOWN K then SDL_JOYBUTTONDOWN
      else if pge_type = PGE_JOYBUTTONUP K then SDL_JOYBUTTONUP
      else if pge_type = PGE_QUIT K then SDL_QUIT
      else if pge_type = PGE_SYSWMEVENT K then SDL_SYSWMEVENT
      else if pge_type \<ge> PGE_USEREVENT K \<and> pge_type < PGE_NUMEVENTS K
        then word_of_int (pge_type - PGE_USEREVENT K) + first_user_event B
      else PGE_NON_SDL_EVENT)"

text \<open>
  The part of the module initialisation that sets the user band (the \<open>if\<close> after the
  \<open>EventType\<close> entry is stored). \<open>SDL_RegisterEvents\<close> is the native call: given a
  count it returns the first code of a fresh block, or \<open>(Uint32)-1\<close>.
\<close>

definition MODINIT_event :: "pge \<Rightarrow> (int \<Rightarrow> SDL_EventType) \<Rightarrow> band \<Rightarrow> band" where
  "MODINIT_event K SDL_RegisterEvents B =
     (if first_user_event B \<noteq> PGE_NON_SDL_EVENT then
        (let numevents = PGE_NUMEVENTS K - PGE_USEREVENT K + 1;
             B' = B\<lparr>first_user_event := SDL_RegisterEvents numevents\<rparr>
         in if first_user_event B' \<noteq> PGE_NON_SDL_EVENT
            then B'\<lparr>last_user_event := first_user_event B' + word_of_int numevents - 1\<rparr>
            else B')
      else B)"

text \<open>The built-in types with a native code of their own, and the window sub-events
  that \<open>sdl_to_pg\<close> reads as an active-state change.\<close>

definition direct_types :: "pge \<Rightarrow> int list" where
  "direct_types K =
     [PGE_KEYDOWN K, PGE_KEYUP K, PGE_MOUSEMOTION K, PGE_MOUSEBUTTONDOWN K,
      PGE_MOUSEBUTTONUP K, PGE_JOYAXISMOTION K, PGE_JOYBALLMOTION K, PGE_JOYHATMOTION K,
      PGE_JOYBUTTONDOWN K, PGE_JOYBUTTONUP K, PGE_QUIT K, PGE_SYSWMEVENT K]"

definition active_subevents :: "8 word list" where
  "active_subevents =
     [SDL_WINDOWEVENT_ENTER, SDL_WINDOWEVENT_LEAVE, SDL_WINDOWEVENT_FOCUS_GAINED,
      SDL_WINDOWEVENT_FOCUS_LOST, SDL_WINDOWEVENT_MINIMIZED, SDL_WINDOWEVENT_RESTORED]"

definition window_ev :: "8 word \<Rightarrow> SDL_Event" where
  "window_ev sub = zero_event\<lparr>type := SDL_WINDOWEVENT, window_event := sub\<rparr>"

subsection \<open>Python values and event objects\<close>

text \<open>
  The values an attribute dictionary holds: integers, floats, unicode strings (code
  points), tuples, a text decoded from native memory at an address, \<open>None\<close>, and any
  other object (by identity). A dictionary maps string keys to values.
\<close>

datatype pyval =
    PyInt int
  | PyFloat real
  | PyUnicode "int list"
  | PyTuple "pyval list"
  | PyText ptr
  | PyNone
  | PyObj nat

type_synonym pydict = "string \<rightharpoonup> pyval"

text \<open>\<open>PyEventObject\<close>: the fields \<open>type\<close> and \<open>dict\<close>; \<open>dict\<close> may be \<open>NULL\<close>.\<close>

record PyEventObject =
  pe_type :: int
  pe_dict :: "pydict option"

text \<open>The exceptions the module's functions end in.\<close>

datatype pyerror = PyExc_SDLError | PyExc_ValueError | PyExc_TypeError | PyExc_SystemError

definition INT_MIN :: int where
  "INT_MIN = - (2 ^ 31)"

text \<open>\<open>Py_ssize_t\<close> is 64 bits wide (an LP64 platform).\<close>

definition PY_SSIZE_T_MAX :: int where
  "PY_SSIZE_T_MAX = 2 ^ 63 - 1"

text \<open>
  CPython's number protocol, as far as the module uses it. \<open>PyNumber_Check\<close> accepts
  integers and floats. \<open>PyNumber_AsSsize_t (v, NULL)\<close> converts an integer and clips it
  to the range of \<open>Py_ssize_t\<close>; for an object that is no integer (a float) the conversion
  fails: it returns -1 and sets a \<open>TypeError\<close>. The result is the value returned with the
  exception the call sets, if any.
\<close>

fun PyNumber_Check :: "pyval \<Rightarrow> bool" where
  "PyNumber_Check (PyInt n) = True"
| "PyNumber_Check (PyFloat x) = True"
| "PyNumber_Check v = False"

fun PyNumber_AsSsize_t :: "pyval \<Rightarrow> int \<times> pyerror option" where
  "PyNumber_AsSsize_t (PyInt n) = (max (- PY_SSIZE_T_MAX - 1) (min n PY_SSIZE_T_MAX), None)"
| "PyNumber_AsSsize_t v = (- 1, Some PyExc_TypeError)"

text \<open>
  \<open>get_sdl_event_code\<close>. \<open>c\<close> is a \<open>Py_ssize_t\<close> and \<open>last_user_event\<close> an unsigned 32-bit
  value: they are compared as 64-bit signed integers. \<open>(int)c\<close> keeps the low 32 bits.
  The code does not test whether \<open>PyNumber_AsSsize_t\<close> failed: the result is the code
  returned with the exception left set, if any.
\<close>

definition get_sdl_event_code :: "band \<Rightarrow> PyEventObject \<Rightarrow> int \<times> pyerror option" where
  "get_sdl_event_code B e =
     (let type0 = sint (last_user_event B + 1) in
      case pe_dict e of
        None \<Rightarrow> (type0, None)
      | Some dict \<Rightarrow>
          (case dict ''sdl2_type'' of
             None \<Rightarrow> (type0, None)
           | Some sdl_type \<Rightarrow>
               if \<not> PyNumber_Check sdl_type then (type0, None)
               else case PyNumber_AsSsize_t sdl_type of
                 (c, err) \<Rightarrow>
                   if c > uint (last_user_event B) \<or> c < INT_MIN then (type0, err)
                   else (sint (word_of_int c :: 32 word), err)))"

text \<open>\<open>pg_to_sdl\<close>: the native code, with the exception \<open>get_sdl_event_code\<close> left set.\<close>

definition pg_to_sdl :: "pge \<Rightarrow> band \<Rightarrow> PyEventObject \<Rightarrow> int \<times> pyerror option" where
  "pg_to_sdl K B e =
     (let pge_type = pe_type e in
      if pge_type = PGE_OTHEREVENT K then get_sdl_event_code B e
      else (sint (pg_type_to_sdl K B pge_type), None))"

text \<open>
  What the stashed native code is when it cannot be used: the key is absent, or its
  value is not a number, or it is an integer outside \<open>[INT_MIN, last_user_event]\<close>.
\<close>

definition code_unusable :: "band \<Rightarrow> pyval option \<Rightarrow> bool" where
  "code_unusable B v \<longleftrightarrow>
     (case v of
        None \<Rightarrow> True
      | Some (PyInt n) \<Rightarrow> n > uint (last_user_event B) \<or> n < INT_MIN
      | Some (PyFloat x) \<Rightarrow> False
      | Some _ \<Rightarrow> True)"

subsection \<open>The registry of user event objects\<close>

text \<open>
  How a C function can end: it returns a value, it reads or writes through \<open>NULL\<close> or
  a pointer to no live cell (undefined behaviour, \<open>Fault\<close>), or its loop never ends.
\<close>

datatype 'a outcome = Diverges | Fault | Done 'a

text \<open>
  \<open>struct UserEventObject\<close> (the field \<open>next\<close> is \<open>nxt\<close> here), and the state the
  registry functions work on: the static head pointer \<open>user_event_objects\<close>, the cells
  \<open>PyMem_New\<close> has handed out and \<open>PyMem_Del\<close> has not taken back, and the reference
  counts of the Python objects, of any type \<open>'o\<close>.
\<close>

record 'o UserEventObject =
  nxt :: ptr
  object :: 'o

record 'o registry =
  user_event_objects :: ptr
  nodes :: "ptr \<rightharpoonup> 'o UserEventObject"
  ob_refcnt :: "'o \<Rightarrow> int"

text \<open>
  \<open>user_event_addobject\<close>. The first argument is what \<open>PyMem_New\<close> returns: \<open>NULL\<close> when
  there is no memory, the address of a fresh cell otherwise.
\<close>

definition user_event_addobject :: "ptr \<Rightarrow> 'o \<Rightarrow> 'o registry \<Rightarrow> ptr \<times> 'o registry" where
  "user_event_addobject userobj obj R =
     (if userobj = NULL then (NULL, R)
      else (userobj,
            R\<lparr>ob_refcnt := (ob_refcnt R)(obj := ob_refcnt R obj + 1),
              nodes := (nodes R)(userobj \<mapsto> \<lparr>nxt = user_event_objects R, object = obj\<rparr>),
              user_event_objects := userobj\<rparr>))"

text \<open>
  The loop \<open>while (hunt && hunt->next != userobj) hunt = hunt->next;\<close> of
  \<open>user_event_getobject\<close>: the value of \<open>hunt\<close> after it. It need not end on a cyclic
  chain of cells, so it is a partial function: \<open>None\<close> is a run that never ends.
\<close>

partial_function (option) hunt_loop ::
  "(ptr \<rightharpoonup> 'o UserEventObject) \<Rightarrow> ptr \<Rightarrow> ptr \<Rightarrow> ptr outcome option"
where
  "hunt_loop h userobj hunt =
     (if hunt = NULL then Some (Done hunt)
      else case h hunt of
             None \<Rightarrow> Some Fault
           | Some n \<Rightarrow> if nxt n \<noteq> userobj then hunt_loop h userobj (nxt n)
                      else Some (Done hunt))"

text \<open>
  \<open>user_event_getobject\<close>: the object returned (\<open>None\<close> for \<open>NULL\<close>) and the new registry.
  When the scan stops at a cell, the code reads \<open>userobj->next\<close> and \<open>userobj->object\<close>
  and frees \<open>userobj\<close>.
\<close>

definition user_event_getobject ::
  "ptr \<Rightarrow> 'o registry \<Rightarrow> ('o option \<times> 'o registry) outcome"
where
  "user_event_getobject userobj R =
     (if user_event_objects R = NULL then Done (None, R)
      else if user_event_objects R = userobj then
        (case nodes R userobj of
           None \<Rightarrow> Fault
         | Some u \<Rightarrow> Done (Some (object u),
                          R\<lparr>user_event_objects := nxt u, nodes := (nodes R)(userobj := None)\<rparr>))
      else
        (case hunt_loop (nodes R) userobj (user_event_objects R) of
           None \<Rightarrow> Diverges
         | Some Diverges \<Rightarrow> Diverges
         | Some Fault \<Rightarrow> Fault
         | Some (Done hunt) \<Rightarrow>
             if hunt \<noteq> NULL then
               (case (nodes R hunt, nodes R userobj) of
                  (Some n, Some u) \<Rightarrow>
                    Done (Some (object u),
                          R\<lparr>nodes := ((nodes R)(hunt \<mapsto> n\<lparr>nxt := nxt u\<rparr>))(userobj := None)\<rparr>)
                | _ \<Rightarrow> Fault)
             else Done (None, R)))"

text \<open>
  The loop of \<open>user_event_cleanup\<close>: every cell of the chain is freed after the
  reference count of its object is decremented.
\<close>

partial_function (option) cleanup_loop ::
  "(ptr \<rightharpoonup> 'o UserEventObject) \<Rightarrow> ('o \<Rightarrow> int) \<Rightarrow> ptr
     \<Rightarrow> ((ptr \<rightharpoonup> 'o UserEventObject) \<times> ('o \<Rightarrow> int)) outcome option"
where
  "cleanup_loop h rc hunt =
     (if hunt = NULL then Some (Done (h, rc))
      else case h hunt of
             None \<Rightarrow> Some Fault
           | Some kill \<Rightarrow>
               cleanup_loop (h(hunt := None)) (rc(object kill := rc (object kill) - 1)) (nxt kill))"

definition user_event_cleanup :: "'o registry \<Rightarrow> 'o registry outcome" where
  "user_event_cleanup R =
     (if user_event_objects R \<noteq> NULL then
        (case cleanup_loop (nodes R) (ob_refcnt R) (user_event_objects R) of
           None \<Rightarrow> Diverges
         | Some Diverges \<Rightarrow> Diverges
         | Some Fault \<Rightarrow> Fault
         | Some (Done (h, rc)) \<Rightarrow>
             Done (R\<lparr>nodes := h, ob_refcnt := rc, user_event_objects := NULL\<rparr>))
      else Done R)"

text \<open>
  The chain of cells that starts at \<open>p\<close> is the list \<open>ps\<close> of addresses and ends with
  \<open>NULL\<close>: what the registry is between two calls. \<open>payloads\<close> are the objects of the
  cells of such a list.
\<close>

primrec islist :: "(ptr \<rightharpoonup> 'o UserEventObject) \<Rightarrow> ptr \<Rightarrow> ptr list \<Rightarrow> bool" where
  "islist h p [] \<longleftrightarrow> p = NULL"
| "islist h p (a # as) \<longleftrightarrow>
     p = a \<and> a \<noteq> NULL \<and> (case h a of None \<Rightarrow> False | Some n \<Rightarrow> islist h (nxt n) as)"

definition payloads :: "(ptr \<rightharpoonup> 'o UserEventObject) \<Rightarrow> ptr list \<Rightarrow> 'o list" where
  "payloads h ps = map (\<lambda>p. object (the (h p))) ps"

definition empty_registry :: "'o registry" where
  "empty_registry = \<lparr>user_event_objects = NULL, nodes = Map.empty, ob_refcnt = (\<lambda>_. 0)\<rparr>"

text \<open>A registry with two cells, for concrete runs.\<close>

definition two_nodes :: "nat registry" where
  "two_nodes = \<lparr>user_event_objects = 32,
     nodes = [16 \<mapsto> \<lparr>nxt = NULL, object = 5\<rparr>, 32 \<mapsto> \<lparr>nxt = 16, object = 7\<rparr>],
     ob_refcnt = (\<lambda>_. 1)\<rparr>"

subsection \<open>Decoding a native event\<close>

text \<open>
  More constants of the SDL2 headers: \<open>KMOD_SHIFT\<close> is \<open>KMOD_LSHIFT | KMOD_RSHIFT\<close>, and
  \<open>SDL_BUTTON(X)\<close> is \<open>1 << (X - 1)\<close>.
\<close>

definition KMOD_SHIFT :: "16 word" where
  "KMOD_SHIFT = 0x0003"

definition SDL_HAT_UP :: "8 word" where "SDL_HAT_UP = 0x01"
definition SDL_HAT_RIGHT :: "8 word" where "SDL_HAT_RIGHT = 0x02"
definition SDL_HAT_DOWN :: "8 word" where "SDL_HAT_DOWN = 0x04"
definition SDL_HAT_LEFT :: "8 word" where "SDL_HAT_LEFT = 0x08"

definition SDL_BUTTON :: "nat \<Rightarrow> 32 word" where
  "SDL_BUTTON X = push_bit (X - 1) 1"

text \<open>
  \<open>insobj\<close> stores a value unless it is \<open>NULL\<close> (\<open>None\<close> here). The C function changes
  the dictionary in place; the model returns the new one. Building an integer or a pair
  of integers is taken to succeed (memory exhaustion is not modelled).
\<close>

definition insobj :: "pydict \<Rightarrow> string \<Rightarrow> pyval option \<Rightarrow> pydict" where
  "insobj dict name v = (case v of None \<Rightarrow> dict | Some x \<Rightarrow> dict(name \<mapsto> x))"

definition PyInt_FromLong :: "int \<Rightarrow> pyval option" where
  "PyInt_FromLong n = Some (PyInt n)"

definition Py_BuildValue_ii :: "int \<Rightarrow> int \<Rightarrow> pyval option" where
  "Py_BuildValue_ii a b = Some (PyTuple [PyInt a, PyInt b])"

text \<open>
  The Python side of \<open>key_to_unicode\<close>. \<open>Py_UNICODE_TOUPPER\<close> is CPython's upper-case
  mapping, of which only the ASCII letters are modelled. \<open>our_unichr\<close> calls the built-in
  \<open>unichr\<close>, which raises outside the range of code points: the result is then \<open>NULL\<close>.
\<close>

definition Py_UNICODE_TOUPPER :: "int \<Rightarrow> int" where
  "Py_UNICODE_TOUPPER c = (if 97 \<le> c \<and> c \<le> 122 then c - 32 else c)"

definition our_unichr :: "int \<Rightarrow> pyval option" where
  "our_unichr uni = (if 0 \<le> uni \<and> uni \<le> 0x10FFFF then Some (PyUnicode [uni]) else None)"

definition our_empty_ustr :: "pyval option" where
  "our_empty_ustr = Some (PyUnicode [])"

text \<open>\<open>key_to_unicode\<close>; \<open>ModMask\<close> is \<open>~KMOD_SHIFT\<close>.\<close>

definition key_to_unicode :: "SDL_Event \<Rightarrow> pyval option" where
  "key_to_unicode event =
     (let c = key_keysym_sym event; m = key_keysym_mod event in
      if c AND 0x40000000 \<noteq> 0 then our_empty_ustr
      else if m AND NOT KMOD_SHIFT \<noteq> 0 then our_empty_ustr
      else our_unichr (if m AND KMOD_SHIFT \<noteq> 0 then Py_UNICODE_TOUPPER c else c))"

text \<open>The C value of a comparison.\<close>

definition bool_int :: "bool \<Rightarrow> int" where
  "bool_int b = (if b then 1 else 0)"

text \<open>
  The \<open>switch (pge_type)\<close> of \<open>dict_from_event\<close>, from the dictionary built so far to
  the one with the attributes of the type. \<open>PGE_KEYDOWN\<close> falls through to \<open>PGE_KEYUP\<close>.
  The system-message case adds nothing (its attributes are compiled in on WIN32 and with
  the X11 driver only). The joystick axis value is the C expression
  \<open>event->jaxis.value/32767.0\<close>; C doubles are modelled as real numbers, so the quotient
  is the exact one, which C rounds to the nearest double.
\<close>

definition dict_switch :: "pge \<Rightarrow> int \<Rightarrow> SDL_Event \<Rightarrow> pydict \<Rightarrow> pydict" where
  "dict_switch K pge_type event dict =
     (if pge_type = PGE_ACTIVEEVENT K then
        (let (gain, state) =
           (if window_event event = SDL_WINDOWEVENT_ENTER then (1, PGE_APPFOCUSMOUSE K)
            else if window_event event = SDL_WINDOWEVENT_LEAVE then (0, PGE_APPFOCUSMOUSE K)
            else if window_event event = SDL_WINDOWEVENT_FOCUS_GAINED
              then (1, PGE_APPINPUTFOCUS K)
            else if window_event event = SDL_WINDOWEVENT_FOCUS_LOST
              then (0, PGE_APPINPUTFOCUS K)
            else if window_event event = SDL_WINDOWEVENT_MINIMIZED then (0, PGE_APPACTIVE K)
            else (1, PGE_APPACTIVE K));
           dict = insobj dict ''gain'' (PyInt_FromLong gain)
         in insobj dict ''state'' (PyInt_FromLong state))
      else if pge_type = PGE_KEYDOWN K \<or> pge_type = PGE_KEYUP K then
        (let dict = (if pge_type = PGE_KEYDOWN K
                     then insobj dict ''unicode'' (key_to_unicode event) else dict);
             dict = insobj dict ''key'' (PyInt_FromLong (key_keysym_sym event));
             dict = insobj dict ''mod'' (PyInt_FromLong (uint (key_keysym_mod event)))
         in insobj dict ''scancode'' (PyInt_FromLong (key_keysym_scancode event)))
      else if pge_type = PGE_MOUSEMOTION K then
        (let dict = insobj dict ''pos'' (Py_BuildValue_ii (motion_x event) (motion_y event));
             dict = insobj dict ''rel''
                      (Py_BuildValue_ii (motion_xrel event) (motion_yrel event))
         in insobj dict ''buttons''
              (Some (PyTuple
                 [PyInt (bool_int (motion_state event AND SDL_BUTTON 1 \<noteq> 0)),
                  PyInt (bool_int (motion_state event AND SDL_BUTTON 2 \<noteq> 0)),
                  PyInt (bool_int (motion_state event AND SDL_BUTTON 3 \<noteq> 0))])))
      else if pge_type = PGE_MOUSEBUTTONDOWN K \<or> pge_type = PGE_MOUSEBUTTONUP K then
        (let dict = insobj dict ''pos'' (Py_BuildValue_ii (button_x event) (button_y event))
         in insobj dict ''button'' (PyInt_FromLong (button_button event)))
      else if pge_type = PGE_JOYAXISMOTION K then
        (let dict = insobj dict ''joy'' (PyInt_FromLong (jaxis_which event));
             dict = insobj dict ''axis'' (PyInt_FromLong (jaxis_axis event))
         in insobj dict ''value''
              (Some (PyFloat (real_of_int (sint (jaxis_value event)) / 32767))))
      else if pge_type = PGE_JOYBALLMOTION K then
        (let dict = insobj dict ''joy'' (PyInt_FromLong (jball_which event));
             dict = insobj dict ''ball'' (PyInt_FromLong (jball_ball event))
         in insobj dict ''rel'' (Py_BuildValue_ii (jball_xrel event) (jball_yrel event)))
      else if pge_type = PGE_JOYHATMOTION K then
        (let dict = insobj dict ''joy'' (PyInt_FromLong (jhat_which event));
             dict = insobj dict ''hat'' (PyInt_FromLong (jhat_hat event));
             hy = (if jhat_value event AND SDL_HAT_UP \<noteq> 0 then 1
                   else if jhat_value event AND SDL_HAT_DOWN \<noteq> 0 then - 1 else 0);
             hx = (if jhat_value event AND SDL_HAT_RIGHT \<noteq> 0 then 1
                   else if jhat_value event AND SDL_HAT_LEFT \<noteq> 0 then - 1 else 0)
         in insobj dict ''value'' (Py_BuildValue_ii hx hy))
      else if pge_type = PGE_JOYBUTTONUP K \<or> pge_type = PGE_JOYBUTTONDOWN K then
        (let dict = insobj dict ''joy'' (PyInt_FromLong (jbutton_which event))
         in insobj dict ''button'' (PyInt_FromLong (jbutton_button event)))
      else if pge_type = PGE_VIDEORESIZE K then
        (let dict = insobj dict ''size''
                      (Py_BuildValue_ii (window_data1 event) (window_data2 event));
             dict = insobj dict ''w'' (PyInt_FromLong (window_data1 event))
         in insobj dict ''h'' (PyInt_FromLong (window_data2 event)))
      else dict)"

text \<open>
  \<open>dict_from_event\<close> from \<open>PyDict_New\<close> on: the dictionary of a native event, and the
  event, whose \<open>user.data1\<close> the code clears once it has read a file name from it. The
  last two tests compare the native code \<open>event->type\<close> with \<open>PGE_USEREVENT\<close> and
  \<open>PGE_NUMEVENTS\<close>, as unsigned values.
\<close>

definition dict_generic :: "pge \<Rightarrow> band \<Rightarrow> SDL_Event \<Rightarrow> pydict \<times> SDL_Event" where
  "dict_generic K B event =
     (let pge_type = sdl_to_pg K B event;
          dict = insobj Map.empty ''sdl2_type'' (PyInt_FromLong (uint (type event)));
          dict = (if type event = SDL_WINDOWEVENT
                  then insobj dict ''window_id'' (PyInt_FromLong (window_windowID event))
                  else dict);
          dict = dict_switch K pge_type event dict;
          (dict, event) =
            (if type event = word_of_int (PGE_USEREVENT K) \<and> user_code event = 0x1000
             then (insobj dict ''filename'' (Some (PyText (user_data1 event))),
                   event\<lparr>user_data1 := NULL\<rparr>)
             else (dict, event));
          dict = (if type event \<ge> word_of_int (PGE_USEREVENT K)
                     \<and> type event < word_of_int (PGE_NUMEVENTS K)
                  then insobj dict ''code'' (PyInt_FromLong (sint (user_code event)))
                  else dict)
      in (dict, event))"

text \<open>
  \<open>dict_from_event\<close>: an event with both check values is looked up in the registry
  first, and the dictionary found there is returned as it is.
\<close>

definition dict_from_event ::
  "pge \<Rightarrow> band \<Rightarrow> pydict registry \<Rightarrow> SDL_Event
     \<Rightarrow> (pydict \<times> pydict registry \<times> SDL_Event) outcome"
where
  "dict_from_event K B R event =
     (if user_code event = USEROBJECT_CHECK1 \<and> user_data1 event = USEROBJECT_CHECK2 then
        (case user_event_getobject (user_data2 event) R of
           Diverges \<Rightarrow> Diverges
         | Fault \<Rightarrow> Fault
         | Done (Some dict, R') \<Rightarrow> Done (dict, R', event)
         | Done (None, R') \<Rightarrow>
             (case dict_generic K B event of (dict, event') \<Rightarrow> Done (dict, R', event')))
      else (case dict_generic K B event of (dict, event') \<Rightarrow> Done (dict, R, event')))"

text \<open>\<open>PyEvent_New\<close>; \<open>None\<close> is the \<open>NULL\<close> event pointer.\<close>

definition PyEvent_New ::
  "pge \<Rightarrow> band \<Rightarrow> pydict registry \<Rightarrow> SDL_Event option
     \<Rightarrow> (PyEventObject \<times> pydict registry \<times> SDL_Event option) outcome"
where
  "PyEvent_New K B R event =
     (case event of
        Some ev \<Rightarrow>
          (case dict_from_event K B R ev of
             Diverges \<Rightarrow> Diverges
           | Fault \<Rightarrow> Fault
           | Done (dict, R', ev') \<Rightarrow>
               Done (\<lparr>pe_type = sdl_to_pg K B ev, pe_dict = Some dict\<rparr>, R', Some ev'))
      | None \<Rightarrow> Done (\<lparr>pe_type = PGE_NOEVENT K, pe_dict = Some Map.empty\<rparr>, R, None))"

text \<open>
  \<open>PyEvent_FillUserEvent\<close>. The first argument is what the allocator returns inside
  \<open>user_event_addobject\<close>. \<open>Py_INCREF\<close> of a \<open>NULL\<close> dictionary is a fault. The other
  fields of \<open>*event\<close> keep what the buffer held.
\<close>

definition PyEvent_FillUserEvent ::
  "ptr \<Rightarrow> PyEventObject \<Rightarrow> SDL_Event \<Rightarrow> pydict registry
     \<Rightarrow> (int \<times> SDL_Event \<times> pydict registry) outcome"
where
  "PyEvent_FillUserEvent p e event R =
     (case pe_dict e of
        None \<Rightarrow> Fault
      | Some dict \<Rightarrow>
          (case user_event_addobject p dict R of
             (userobj, R') \<Rightarrow>
               if userobj = NULL then Done (- 1, event, R')
               else Done (0, event\<lparr>type := word_of_int (pe_type e),
                                    user_code := USEROBJECT_CHECK1,
                                    user_data1 := USEROBJECT_CHECK2,
                                    user_data2 := userobj\<rparr>, R')))"


subsection \<open>The native queue\<close>

text \<open>
  The native layer, as far as the module calls it. The queue is the list of the events
  waiting, oldest first. Every call of \<open>SDL_PeepEvents\<close> in the module passes a buffer
  of one event, with \<open>minType = maxType\<close>: the model is for that buffer size. The call
  returns -1 when the event subsystem does not work (\<open>ok\<close> is false), else the number of
  events stored or added. \<open>SDL_PushEvent\<close> returns 1 after adding the event, or -1.
  \<open>SDL_EventState\<close> returns the state of a type code and sets it unless asked to query:
  the set holds the codes that are ignored. \<open>SDL_WaitEvent\<close> returns 1 with the next
  event in \<open>*e\<close>, or 0 on an error; the list of \<open>wait_result\<close> is what its successive
  calls will give, and a call on the empty list never returns. \<open>SDL_PumpEvents\<close> is not
  modelled: the queue is the one after the pump.
\<close>

datatype SDL_eventaction = SDL_ADDEVENT | SDL_PEEKEVENT | SDL_GETEVENT

definition SDL_QUERY :: int where "SDL_QUERY = - 1"
definition SDL_IGNORE :: int where "SDL_IGNORE = 0"
definition SDL_ENABLE :: int where "SDL_ENABLE = 1"

fun take_first :: "('a \<Rightarrow> bool) \<Rightarrow> 'a list \<Rightarrow> ('a \<times> 'a list) option" where
  "take_first P [] = None"
| "take_first P (x # xs) =
     (if P x then Some (x, xs)
      else (case take_first P xs of None \<Rightarrow> None | Some (y, ys) \<Rightarrow> Some (y, x # ys)))"

definition SDL_PeepEvents ::
  "bool \<Rightarrow> SDL_eventaction \<Rightarrow> SDL_EventType \<Rightarrow> SDL_EventType \<Rightarrow> SDL_Event
     \<Rightarrow> SDL_Event list \<Rightarrow> int \<times> SDL_Event \<times> SDL_Event list"
where
  "SDL_PeepEvents ok action minType maxType events q =
     (if \<not> ok then (- 1, events, q)
      else case action of
        SDL_ADDEVENT \<Rightarrow> (1, events, q @ [events])
      | SDL_PEEKEVENT \<Rightarrow>
          (case take_first (\<lambda>x. minType \<le> type x \<and> type x \<le> maxType) q of
             None \<Rightarrow> (0, events, q)
           | Some (x, q') \<Rightarrow> (1, x, q))
      | SDL_GETEVENT \<Rightarrow>
          (case take_first (\<lambda>x. minType \<le> type x \<and> type x \<le> maxType) q of
             None \<Rightarrow> (0, events, q)
           | Some (x, q') \<Rightarrow> (1, x, q')))"

definition SDL_PushEvent ::
  "bool \<Rightarrow> SDL_Event \<Rightarrow> SDL_Event list \<Rightarrow> int \<times> SDL_Event list"
where
  "SDL_PushEvent ok event q = (if ok then (1, q @ [event]) else (- 1, q))"

definition SDL_EventState ::
  "SDL_EventType \<Rightarrow> int \<Rightarrow> SDL_EventType set \<Rightarrow> int \<times> SDL_EventType set"
where
  "SDL_EventState ty state ign =
     (let current_state = (if ty \<in> ign then SDL_IGNORE else SDL_ENABLE) in
      if state = SDL_IGNORE then (current_state, insert ty ign)
      else if state = SDL_ENABLE then (current_state, ign - {ty})
      else (current_state, ign))"

datatype wait_result = Arrives SDL_Event | WaitFails

subsection \<open>Waiting and polling\<close>

text \<open>
  \<open>Py_WaitEvent\<close>: the loop on the copy \<open>r\<close> of \<open>repeat\<close>, then the copy back. The loop
  condition is \<open>SDL_WaitEvent (e) == 0\<close>: the body runs when the wait fails, on what the
  buffer holds, and an event that arrives leaves the loop with \<open>rcode\<close> still -1.
  \<open>None\<close> is a wait that never returns.
\<close>

fun Py_WaitEvent_loop ::
  "KeyRepeat \<Rightarrow> SDL_Event \<Rightarrow> wait_result list
     \<Rightarrow> (int \<times> KeyRepeat \<times> SDL_Event \<times> wait_result list) option"
where
  "Py_WaitEvent_loop r e [] = None"
| "Py_WaitEvent_loop r e0 (Arrives e # ws) = Some (- 1, r, e, ws)"
| "Py_WaitEvent_loop r e (WaitFails # ws) =
     (if type e = SDL_KEYDOWN then
        (if key_repeat e \<noteq> 0 then
           (if \<not> repeat_enabled r then Py_WaitEvent_loop r e ws
            else if firsttime r \<noteq> 0 then
              (if (word_of_int (timestamp r) - key_timestamp e :: 32 word)
                    < word_of_int (delay r)
               then Py_WaitEvent_loop r e ws
               else Some (0, r\<lparr>firsttime := 0, timestamp := sint (key_timestamp e)\<rparr>, e, ws))
            else if (key_timestamp e - word_of_int (timestamp r) :: 32 word)
                      < word_of_int (interval r)
              then Py_WaitEvent_loop r e ws
            else Some (0, r\<lparr>timestamp := sint (key_timestamp e)\<rparr>, e, ws))
         else if repeat_enabled r
           then Some (0, r\<lparr>firsttime := 1, timestamp := sint (key_timestamp e)\<rparr>, e, ws)
         else Some (0, r, e, ws))
      else Some (0, r, e, ws))"

definition Py_WaitEvent ::
  "KeyRepeat \<Rightarrow> SDL_Event \<Rightarrow> wait_result list
     \<Rightarrow> (int \<times> KeyRepeat \<times> SDL_Event \<times> wait_result list) option"
where
  "Py_WaitEvent repeat e ws =
     (case Py_WaitEvent_loop repeat e ws of
        None \<Rightarrow> None
      | Some (rcode, r, e', ws') \<Rightarrow>
          Some (rcode, repeat\<lparr>firsttime := firsttime r, timestamp := timestamp r\<rparr>, e', ws'))"

subsection \<open>The module's state and its Python functions\<close>

text \<open>
  A Python function of the module raises an exception or returns a value. The state
  is the module's statics with the native layer's queue and flags, and \<open>video_init\<close>,
  what \<open>VIDEO_INIT_CHECK\<close> tests. The uninitialised local \<open>SDL_Event event\<close> of a
  function is an argument of its model: it may hold anything.
\<close>

datatype pyret = Py_None | Ret_Event PyEventObject | Ret_Int int | Ret_List "PyEventObject list"

datatype pyresult = RAISE pyerror | Return pyret

record state =
  repeat :: KeyRepeat
  user_band :: band
  registry :: "pydict registry"
  queue :: "SDL_Event list"
  events_ok :: bool
  ignored :: "SDL_EventType set"
  video_init :: bool

definition initial_state :: state where
  "initial_state =
     \<lparr>repeat = \<lparr>delay = 0, interval = 0, firsttime = 0, timestamp = 0\<rparr>,
      user_band = initial_band, registry = empty_registry, queue = [], events_ok = True,
      ignored = {}, video_init = True\<rparr>"

definition pygame_wait ::
  "pge \<Rightarrow> SDL_Event \<Rightarrow> wait_result list \<Rightarrow> state
     \<Rightarrow> (pyresult \<times> state \<times> wait_result list) outcome"
where
  "pygame_wait K event ws S =
     (if \<not> video_init S then Done (RAISE PyExc_SDLError, S, ws)
      else case Py_WaitEvent (repeat S) event ws of
        None \<Rightarrow> Diverges
      | Some (status, r, event', ws') \<Rightarrow>
          if status = 0 then Done (RAISE PyExc_SDLError, S\<lparr>repeat := r\<rparr>, ws')
          else (case PyEvent_New K (user_band S) (registry S) (Some event') of
                  Diverges \<Rightarrow> Diverges
                | Fault \<Rightarrow> Fault
                | Done (e, R', _) \<Rightarrow>
                    Done (Return (Ret_Event e), S\<lparr>repeat := r, registry := R'\<rparr>, ws')))"

definition pygame_poll :: "pge \<Rightarrow> SDL_Event \<Rightarrow> state \<Rightarrow> (pyresult \<times> state) outcome" where
  "pygame_poll K event S =
     (if \<not> video_init S then Done (RAISE PyExc_SDLError, S)
      else case Py_PollEvent (repeat S) event (queue S) of
        (rcode, r, event', q') \<Rightarrow>
          (case PyEvent_New K (user_band S) (registry S)
                  (if rcode \<noteq> 0 then Some event' else None) of
             Diverges \<Rightarrow> Diverges
           | Fault \<Rightarrow> Fault
           | Done (e, R', _) \<Rightarrow>
               Done (Return (Ret_Event e), S\<lparr>repeat := r, queue := q', registry := R'\<rparr>)))"

text \<open>
  \<open>PG_PeepEvents\<close>, for \<open>numevents = 1\<close> (all its callers): the \<open>for\<close> loop from
  \<open>type\<close> and \<open>tally\<close> on. Shifting by a count outside 0..31 is undefined in C.
\<close>

function PG_PeepEvents_loop ::
  "pge \<Rightarrow> band \<Rightarrow> bool \<Rightarrow> SDL_eventaction \<Rightarrow> Uint32 \<Rightarrow> int \<Rightarrow> int \<Rightarrow> SDL_Event
     \<Rightarrow> SDL_Event list \<Rightarrow> (int \<times> SDL_Event \<times> SDL_Event list) outcome"
where
  "PG_PeepEvents_loop K B ok action mask0 ty tally events q =
     (if tally < 1 \<and> ty \<noteq> PGE_NUMEVENTS K then
        (if ty < 0 \<or> ty \<ge> 32 then Fault
         else if push_bit (nat ty) (1 :: 32 word) AND mask0 \<noteq> 0 then
           (let sdl_type = pg_type_to_sdl K B ty in
            if sdl_type \<noteq> PGE_NON_SDL_EVENT then
              (case SDL_PeepEvents ok action sdl_type sdl_type events q of
                 (n, events', q') \<Rightarrow>
                   if n = - 1 then Done (- 1, events', q')
                   else PG_PeepEvents_loop K B ok action mask0 (ty + 1) (tally + n) events' q')
            else PG_PeepEvents_loop K B ok action mask0 (ty + 1) tally events q)
         else PG_PeepEvents_loop K B ok action mask0 (ty + 1) tally events q)
      else Done (tally, events, q))"
  by pat_completeness auto
termination
  by (relation "measure (\<lambda>(K, B, ok, action, mask0, ty, tally, events, q). nat (32 - ty))") auto

declare PG_PeepEvents_loop.simps [simp del]

definition PG_PeepEvents ::
  "pge \<Rightarrow> band \<Rightarrow> bool \<Rightarrow> SDL_eventaction \<Rightarrow> Uint32 \<Rightarrow> SDL_Event \<Rightarrow> SDL_Event list
     \<Rightarrow> (int \<times> SDL_Event \<times> SDL_Event list) outcome"
where
  "PG_PeepEvents K B ok action mask0 events q =
     PG_PeepEvents_loop K B ok action mask0 1 0 events q"


text \<open>A successful \<open>SDL_GETEVENT\<close> step shortens the queue: the loops of \<open>get\<close> and
  \<open>clear\<close> end.\<close>

lemma take_first_length:
  "take_first P q = Some (x, q') \<Longrightarrow> length q = Suc (length q')"
  by (induction q arbitrary: x q') (auto split: if_splits option.splits)

lemma SDL_PeepEvents_get_length:
  assumes "SDL_PeepEvents ok SDL_GETEVENT a b e q = (n, e', q')"
  shows "(n = 1 \<and> length q = Suc (length q')) \<or> (n \<noteq> 1 \<and> q' = q)"
  using assms
  by (auto simp: SDL_PeepEvents_def split: if_splits option.splits dest: take_first_length)

lemma PG_PeepEvents_loop_get_length:
  assumes "PG_PeepEvents_loop K B ok action mask0 ty tally e q = Done (n, e', q')"
    and "tally = 0" and "action = SDL_GETEVENT"
  shows "(n = 1 \<and> length q = Suc (length q')) \<or> (n \<noteq> 1 \<and> q' = q)"
  using assms
proof (induction K B ok action mask0 ty tally e q rule: PG_PeepEvents_loop.induct)
  case (1 K B ok action mask0 ty tally events q)
  note step = "1.prems"(1) [unfolded PG_PeepEvents_loop.simps [of K B ok action mask0 ty tally events q]]
  note t0 = "1.prems"(2) and act = "1.prems"(3)
  show ?case
  proof (cases "tally < 1 \<and> ty \<noteq> PGE_NUMEVENTS K")
    case False
    with step t0 show ?thesis by simp
  next
    case go: True
    show ?thesis
    proof (cases "ty < 0 \<or> ty \<ge> 32")
      case True
      with step go show ?thesis by simp
    next
      case range: False
      show ?thesis
      proof (cases "push_bit (nat ty) (1 :: 32 word) AND mask0 \<noteq> 0")
        case False
        with step go range
        have "PG_PeepEvents_loop K B ok action mask0 (ty + 1) tally events q = Done (n, e', q')"
          by simp
        from "1.IH"(3) [OF go range False this t0 act] show ?thesis .
      next
        case bit: True
        show ?thesis
        proof (cases "pg_type_to_sdl K B ty \<noteq> PGE_NON_SDL_EVENT")
          case False
          with step go range bit
          have "PG_PeepEvents_loop K B ok action mask0 (ty + 1) tally events q
              = Done (n, e', q')"
            by (simp add: Let_def)
          from "1.IH"(2) [OF go range bit refl False this t0 act] show ?thesis .
        next
          case native: True
          obtain m ev q1 where p: "(m, ev, q1) = SDL_PeepEvents ok action
              (pg_type_to_sdl K B ty) (pg_type_to_sdl K B ty) events q"
            by (metis prod_cases3)
          note l = SDL_PeepEvents_get_length [OF p [symmetric, unfolded act]]
          show ?thesis
          proof (cases "m = - 1")
            case True
            with step go range bit native p [symmetric] l show ?thesis
              by (auto simp: Let_def)
          next
            case False
            with step go range bit native p [symmetric]
            have r: "PG_PeepEvents_loop K B ok action mask0 (ty + 1) (tally + m) ev q1
                = Done (n, e', q')"
              by (simp add: Let_def)
            show ?thesis
            proof (cases "m = 1")
              case True
              with r t0 l show ?thesis
                by (simp add: PG_PeepEvents_loop.simps [of K B ok action mask0 "ty + 1" 1 ev q1])
            next
              case m: False
              with l have q1: "q1 = q" by simp
              have m0: "m = 0"
                using p [symmetric] m False
                by (auto simp: SDL_PeepEvents_def split: if_splits option.splits
                    SDL_eventaction.splits)
              with t0 have t: "tally + m = 0" by simp
              from "1.IH"(1) [OF go range bit refl native p refl False r t act] q1
              show ?thesis by simp
            qed
          qed
        qed
      qed
    qed
  qed
qed

lemma PG_PeepEvents_get_shorter:
  "PG_PeepEvents K B ok SDL_GETEVENT mask0 e q = Done (1, e', q') \<Longrightarrow> length q' < length q"
  using PG_PeepEvents_loop_get_length [of K B ok SDL_GETEVENT mask0 1 0 e q 1 e' q']
  by (simp add: PG_PeepEvents_def)


text \<open>
  Modelled from the spec: \<open>IntFromObj\<close> and \<open>IntFromObjIndex\<close> are helpers of pygame's
  base module, whose source is not here. The specification has a filter be a type number
  or a sequence of type numbers, any other shape being an invalid argument: a number
  gives its integer value (a float its integral part), any other object is refused.
  \<open>PySequence_items\<close> gives the items of an object \<open>PySequence_Check\<close> accepts.
\<close>

fun IntFromObj :: "pyval \<Rightarrow> int option" where
  "IntFromObj (PyInt n) = Some n"
| "IntFromObj (PyFloat x) = Some (if x \<ge> 0 then \<lfloor>x\<rfloor> else \<lceil>x\<rceil>)"
| "IntFromObj v = None"

fun PySequence_items :: "pyval \<Rightarrow> pyval list option" where
  "PySequence_items (PyTuple xs) = Some xs"
| "PySequence_items (PyUnicode cs) = Some (map (\<lambda>c. PyUnicode [c]) cs)"
| "PySequence_items v = None"

text \<open>
  \<open>PGE_EVENTMASK(T)\<close> is \<open>1 << T\<close>, undefined for a count outside 0..31. The three
  functions \<open>get\<close>, \<open>clear\<close> and \<open>peek\<close> build their mask with the same code, modelled once
  as \<open>type_filter_mask\<close>.
\<close>

definition PGE_EVENTMASK :: "int \<Rightarrow> Uint32 outcome" where
  "PGE_EVENTMASK T = (if 0 \<le> T \<and> T < 32 then Done (push_bit (nat T) 1) else Fault)"

fun mask_of_sequence :: "pyval list \<Rightarrow> Uint32 \<Rightarrow> (pyerror + Uint32) outcome" where
  "mask_of_sequence [] mask0 = Done (Inr mask0)"
| "mask_of_sequence (x # xs) mask0 =
     (case IntFromObj x of
        None \<Rightarrow> Done (Inl PyExc_TypeError)
      | Some val \<Rightarrow>
          (case PGE_EVENTMASK val of
             Done b \<Rightarrow> mask_of_sequence xs (mask0 OR b)
           | Fault \<Rightarrow> Fault
           | Diverges \<Rightarrow> Diverges))"

definition type_filter_mask :: "pyval list \<Rightarrow> (pyerror + Uint32) outcome" where
  "type_filter_mask args =
     (case args of
        [] \<Rightarrow> Done (Inr PGE_ALLEVENTS)
      | ty # _ \<Rightarrow>
          (case PySequence_items ty of
             Some xs \<Rightarrow> mask_of_sequence xs 0
           | None \<Rightarrow>
               (case IntFromObj ty of
                  Some val \<Rightarrow>
                    (case PGE_EVENTMASK val of
                       Done b \<Rightarrow> Done (Inr b) | Fault \<Rightarrow> Fault | Diverges \<Rightarrow> Diverges)
                | None \<Rightarrow> Done (Inl PyExc_TypeError))))"

text \<open>
  The \<open>while\<close> loops of \<open>event_get\<close> and \<open>event_clear\<close>. Each round removes an event, so
  they end.
\<close>

function event_get_loop ::
  "pge \<Rightarrow> band \<Rightarrow> bool \<Rightarrow> Uint32 \<Rightarrow> pydict registry \<Rightarrow> SDL_Event \<Rightarrow> SDL_Event list
     \<Rightarrow> PyEventObject list
     \<Rightarrow> (PyEventObject list \<times> pydict registry \<times> SDL_Event \<times> SDL_Event list) outcome"
where
  "event_get_loop K B ok mask0 R event q list =
     (case PG_PeepEvents K B ok SDL_GETEVENT mask0 event q of
        Diverges \<Rightarrow> Diverges
      | Fault \<Rightarrow> Fault
      | Done (n, event', q') \<Rightarrow>
          if n = 1 then
            (case PyEvent_New K B R (Some event') of
               Diverges \<Rightarrow> Diverges
             | Fault \<Rightarrow> Fault
             | Done (e, R', ev) \<Rightarrow>
                 event_get_loop K B ok mask0 R'
                   (case ev of Some b \<Rightarrow> b | None \<Rightarrow> event') q' (list @ [e]))
          else Done (list, R, event', q'))"
  by pat_completeness auto
termination
  by (relation "measure (\<lambda>(K, B, ok, mask0, R, event, q, list). length q)")
    (auto dest: PG_PeepEvents_get_shorter)

declare event_get_loop.simps [simp del]

function event_clear_loop ::
  "pge \<Rightarrow> band \<Rightarrow> bool \<Rightarrow> Uint32 \<Rightarrow> SDL_Event \<Rightarrow> SDL_Event list
     \<Rightarrow> (SDL_Event \<times> SDL_Event list) outcome"
where
  "event_clear_loop K B ok mask0 event q =
     (case PG_PeepEvents K B ok SDL_GETEVENT mask0 event q of
        Diverges \<Rightarrow> Diverges
      | Fault \<Rightarrow> Fault
      | Done (n, event', q') \<Rightarrow>
          if n = 1 then event_clear_loop K B ok mask0 event' q' else Done (event', q'))"
  by pat_completeness auto
termination
  by (relation "measure (\<lambda>(K, B, ok, mask0, event, q). length q)")
    (auto dest: PG_PeepEvents_get_shorter)

declare event_clear_loop.simps [simp del]

definition event_get :: "pge \<Rightarrow> SDL_Event \<Rightarrow> pyval list \<Rightarrow> state \<Rightarrow> (pyresult \<times> state) outcome" where
  "event_get K event args S =
     (if length args \<noteq> 0 \<and> length args \<noteq> 1 then Done (RAISE PyExc_ValueError, S)
      else if \<not> video_init S then Done (RAISE PyExc_SDLError, S)
      else case type_filter_mask args of
        Diverges \<Rightarrow> Diverges
      | Fault \<Rightarrow> Fault
      | Done (Inl err) \<Rightarrow> Done (RAISE err, S)
      | Done (Inr mask0) \<Rightarrow>
          (case event_get_loop K (user_band S) (events_ok S) mask0 (registry S) event
                  (queue S) [] of
             Diverges \<Rightarrow> Diverges
           | Fault \<Rightarrow> Fault
           | Done (list, R', _, q') \<Rightarrow>
               Done (Return (Ret_List list), S\<lparr>registry := R', queue := q'\<rparr>)))"

definition event_clear :: "pge \<Rightarrow> SDL_Event \<Rightarrow> pyval list \<Rightarrow> state \<Rightarrow> (pyresult \<times> state) outcome" where
  "event_clear K event args S =
     (if length args \<noteq> 0 \<and> length args \<noteq> 1 then Done (RAISE PyExc_ValueError, S)
      else if \<not> video_init S then Done (RAISE PyExc_SDLError, S)
      else case type_filter_mask args of
        Diverges \<Rightarrow> Diverges
      | Fault \<Rightarrow> Fault
      | Done (Inl err) \<Rightarrow> Done (RAISE err, S)
      | Done (Inr mask0) \<Rightarrow>
          (case event_clear_loop K (user_band S) (events_ok S) mask0 event (queue S) of
             Diverges \<Rightarrow> Diverges
           | Fault \<Rightarrow> Fault
           | Done (_, q') \<Rightarrow> Done (Return Py_None, S\<lparr>queue := q'\<rparr>)))"

definition event_peek :: "pge \<Rightarrow> SDL_Event \<Rightarrow> pyval list \<Rightarrow> state \<Rightarrow> (pyresult \<times> state) outcome" where
  "event_peek K event args S =
     (if length args \<noteq> 0 \<and> length args \<noteq> 1 then Done (RAISE PyExc_ValueError, S)
      else if \<not> video_init S then Done (RAISE PyExc_SDLError, S)
      else case type_filter_mask args of
        Diverges \<Rightarrow> Diverges
      | Fault \<Rightarrow> Fault
      | Done (Inl err) \<Rightarrow> Done (RAISE err, S)
      | Done (Inr mask0) \<Rightarrow>
          (let noargs = (length args = 0) in
           case PG_PeepEvents K (user_band S) (events_ok S) SDL_PEEKEVENT mask0 event
                  (queue S) of
             Diverges \<Rightarrow> Diverges
           | Fault \<Rightarrow> Fault
           | Done (result, event', q') \<Rightarrow>
               if noargs then
                 (case PyEvent_New K (user_band S) (registry S) (Some event') of
                    Diverges \<Rightarrow> Diverges
                  | Fault \<Rightarrow> Fault
                  | Done (e, R', _) \<Rightarrow>
                      Done (Return (Ret_Event e), S\<lparr>registry := R', queue := q'\<rparr>))
               else Done (Return (Ret_Int (bool_int (result = 1))), S\<lparr>queue := q'\<rparr>)))"

text \<open>
  What the interpreter makes of the result of a C function, given the exception that
  is set when it returns. A value returned while an exception is set is refused with a
  \<open>SystemError\<close>. A \<open>NULL\<close> result raises the exception that is set, and a
  \<open>SystemError\<close> when none is.
\<close>

definition returned :: "pyerror option \<Rightarrow> pyret \<Rightarrow> pyresult" where
  "returned pending v =
     (case pending of None \<Rightarrow> Return v | Some err \<Rightarrow> RAISE PyExc_SystemError)"

definition returned_NULL :: "pyerror option \<Rightarrow> pyresult" where
  "returned_NULL pending =
     (case pending of None \<Rightarrow> RAISE PyExc_SystemError | Some err \<Rightarrow> RAISE err)"

text \<open>
  \<open>event_post\<close>, for an argument that is an event object. \<open>pending\<close> is the exception
  \<open>pg_to_sdl\<close> left set. When \<open>PyEvent_FillUserEvent\<close> fails the function returns \<open>NULL\<close>
  without setting an exception. \<open>RAISE\<close> sets its own exception, which replaces one
  that is set.
\<close>

definition event_post ::
  "pge \<Rightarrow> ptr \<Rightarrow> SDL_Event \<Rightarrow> PyEventObject \<Rightarrow> state \<Rightarrow> (pyresult \<times> state) outcome"
where
  "event_post K p event e S =
     (if \<not> video_init S then Done (RAISE PyExc_SDLError, S)
      else
        (case pg_to_sdl K (user_band S) e of
           (sdl_type, pending) \<Rightarrow>
             (let isblocked =
                    (fst (SDL_EventState (word_of_int sdl_type) SDL_QUERY (ignored S))
                       = SDL_IGNORE)
              in if isblocked then Done (returned pending Py_None, S)
                 else case PyEvent_FillUserEvent p e event (registry S) of
                   Diverges \<Rightarrow> Diverges
                 | Fault \<Rightarrow> Fault
                 | Done (rc, event', R') \<Rightarrow>
                     if rc \<noteq> 0 then Done (returned_NULL pending, S\<lparr>registry := R'\<rparr>)
                     else (case SDL_PushEvent (events_ok S) event' (queue S) of
                             (pushed, q') \<Rightarrow>
                               if pushed = 0
                               then Done (RAISE PyExc_SDLError,
                                          S\<lparr>registry := R', queue := q'\<rparr>)
                               else Done (returned pending Py_None,
                                          S\<lparr>registry := R', queue := q'\<rparr>)))))"

text \<open>
  \<open>set_blocked\<close> and \<open>get_blocked\<close> pass the pygame type number, cast to \<open>Uint8\<close>, as the
  native type code.
\<close>

definition CheckEventInRange :: "pge \<Rightarrow> int \<Rightarrow> bool" where
  "CheckEventInRange K evt \<longleftrightarrow> evt \<ge> 0 \<and> evt < PGE_NUMEVENTS K"

definition Uint8_code :: "int \<Rightarrow> SDL_EventType" where
  "Uint8_code val = ucast (word_of_int val :: 8 word)"

fun set_blocked_sequence ::
  "pge \<Rightarrow> pyval list \<Rightarrow> SDL_EventType set \<Rightarrow> pyerror option \<times> SDL_EventType set"
where
  "set_blocked_sequence K [] ign = (None, ign)"
| "set_blocked_sequence K (x # xs) ign =
     (case IntFromObj x of
        None \<Rightarrow> (Some PyExc_TypeError, ign)
      | Some val \<Rightarrow>
          if \<not> CheckEventInRange K val then (Some PyExc_ValueError, ign)
          else set_blocked_sequence K xs (snd (SDL_EventState (Uint8_code val) SDL_IGNORE ign)))"

definition set_blocked :: "pge \<Rightarrow> pyval list \<Rightarrow> state \<Rightarrow> (pyresult \<times> state) outcome" where
  "set_blocked K args S =
     (if length args \<noteq> 1 then Done (RAISE PyExc_ValueError, S)
      else if \<not> video_init S then Done (RAISE PyExc_SDLError, S)
      else
        (let ty = hd args in
         case PySequence_items ty of
           Some xs \<Rightarrow>
             (case set_blocked_sequence K xs (ignored S) of
                (Some err, ign) \<Rightarrow> Done (RAISE err, S\<lparr>ignored := ign\<rparr>)
              | (None, ign) \<Rightarrow> Done (Return Py_None, S\<lparr>ignored := ign\<rparr>))
         | None \<Rightarrow>
             if ty = PyNone then
               Done (Return Py_None,
                     S\<lparr>ignored := snd (SDL_EventState (Uint8_code 0xFF) SDL_IGNORE (ignored S))\<rparr>)
             else
               (case IntFromObj ty of
                  Some val \<Rightarrow>
                    if \<not> CheckEventInRange K val then Done (RAISE PyExc_ValueError, S)
                    else Done (Return Py_None,
                           S\<lparr>ignored := snd (SDL_EventState (Uint8_code val) SDL_IGNORE
                                                (ignored S))\<rparr>)
                | None \<Rightarrow> Done (RAISE PyExc_TypeError, S))))"

fun get_blocked_sequence ::
  "pge \<Rightarrow> pyval list \<Rightarrow> SDL_EventType set \<Rightarrow> bool \<Rightarrow> pyerror + bool"
where
  "get_blocked_sequence K [] ign isblocked = Inr isblocked"
| "get_blocked_sequence K (x # xs) ign isblocked =
     (case IntFromObj x of
        None \<Rightarrow> Inl PyExc_TypeError
      | Some val \<Rightarrow>
          if \<not> CheckEventInRange K val then Inl PyExc_ValueError
          else get_blocked_sequence K xs ign
                 (isblocked \<or> fst (SDL_EventState (Uint8_code val) SDL_QUERY ign) = SDL_IGNORE))"

definition get_blocked :: "pge \<Rightarrow> pyval list \<Rightarrow> state \<Rightarrow> (pyresult \<times> state) outcome" where
  "get_blocked K args S =
     (if length args \<noteq> 1 then Done (RAISE PyExc_ValueError, S)
      else if \<not> video_init S then Done (RAISE PyExc_SDLError, S)
      else
        (let ty = hd args in
         case PySequence_items ty of
           Some xs \<Rightarrow>
             (case get_blocked_sequence K xs (ignored S) False of
                Inl err \<Rightarrow> Done (RAISE err, S)
              | Inr isblocked \<Rightarrow> Done (Return (Ret_Int (bool_int isblocked)), S))
         | None \<Rightarrow>
             (case IntFromObj ty of
                Some val \<Rightarrow>
                  if \<not> CheckEventInRange K val then Done (RAISE PyExc_ValueError, S)
                  else Done (Return (Ret_Int (bool_int
                          (fst (SDL_EventState (Uint8_code val) SDL_QUERY (ignored S))
                             = SDL_IGNORE))), S)
              | None \<Rightarrow> Done (RAISE PyExc_TypeError, S))))"

subsection \<open>Names for statements and concrete runs\<close>

text \<open>
  Concrete native events, the test of \<open>dict_from_event\<close> for an event the module posted
  itself, and the event object \<open>PyEvent_New\<close> builds for any other native event.
\<close>

definition joyaxis :: "16 word \<Rightarrow> SDL_Event" where
  "joyaxis v = zero_event\<lparr>type := SDL_JOYAXISMOTION, jaxis_value := v\<rparr>"

definition keyup :: "Uint32 \<Rightarrow> SDL_Event" where
  "keyup ts = zero_event\<lparr>type := SDL_KEYUP, key_timestamp := ts\<rparr>"

definition user_posted :: "SDL_Event \<Rightarrow> bool" where
  "user_posted event \<longleftrightarrow>
     user_code event = USEROBJECT_CHECK1 \<and> user_data1 event = USEROBJECT_CHECK2"

definition decode :: "pge \<Rightarrow> band \<Rightarrow> SDL_Event \<Rightarrow> PyEventObject" where
  "decode K B event =
     \<lparr>pe_type = sdl_to_pg K B event, pe_dict = Some (fst (dict_generic K B event))\<rparr>"

text \<open>
  The queue that holds a key press and then a resize of the window, the state right
  after a fresh key press at time 1000 with repeat enabled (delay 500, interval 100),
  and the no-op event \<open>PyEvent_New (NULL)\<close> builds.
\<close>

definition two_events :: state where
  "two_events = initial_state\<lparr>queue := [keydown 5 0, window_ev SDL_WINDOWEVENT_RESIZED]\<rparr>"

definition after_fresh_keydown :: state where
  "after_fresh_keydown =
     initial_state\<lparr>repeat := \<lparr>delay = 500, interval = 100, firsttime = 1, timestamp = 1000\<rparr>\<rparr>"

definition noevent :: "pge \<Rightarrow> PyEventObject" where
  "noevent K = \<lparr>pe_type = PGE_NOEVENT K, pe_dict = Some Map.empty\<rparr>"

subsection \<open>The scan of the queue, as a list of native codes\<close>

text \<open>
  The pygame types the loop of \<open>PG_PeepEvents\<close> acts on, in the order it visits them:
  those from 1 up to \<open>PGE_NUMEVENTS - 1\<close> whose bit is set in the mask and that
  \<open>pg_type_to_sdl\<close> translates to a native code; and these native codes.
\<close>

definition scanned_types :: "pge \<Rightarrow> band \<Rightarrow> Uint32 \<Rightarrow> int list" where
  "scanned_types K B mask0 =
     filter (\<lambda>t. push_bit (nat t) (1 :: 32 word) AND mask0 \<noteq> 0
                 \<and> pg_type_to_sdl K B t \<noteq> PGE_NON_SDL_EVENT)
       [1 .. PGE_NUMEVENTS K - 1]"

definition scanned_codes :: "pge \<Rightarrow> band \<Rightarrow> Uint32 \<Rightarrow> SDL_EventType list" where
  "scanned_codes K B mask0 = map (pg_type_to_sdl K B) (scanned_types K B mask0)"

text \<open>
  One native peep for each code of a list in turn, each a call of \<open>SDL_PeepEvents\<close>
  with that code as both bounds, up to the first call that yields an event.
\<close>

fun scan_codes ::
  "SDL_eventaction \<Rightarrow> SDL_EventType list \<Rightarrow> SDL_Event \<Rightarrow> SDL_Event list
     \<Rightarrow> int \<times> SDL_Event \<times> SDL_Event list"
where
  "scan_codes action [] e q = (0, e, q)"
| "scan_codes action (c # cs) e q =
     (case SDL_PeepEvents True action c c e q of
        (n, e', q') \<Rightarrow> if n = 1 then (1, e', q') else scan_codes action cs e' q')"

text \<open>
  The events of a queue that bear one of the codes of a list, grouped by code in the
  order of the list, each group in arrival order.
\<close>

fun drain_order :: "SDL_EventType list \<Rightarrow> SDL_Event list \<Rightarrow> SDL_Event list" where
  "drain_order [] q = []"
| "drain_order (c # cs) q =
     filter (\<lambda>x. type x = c) q @ drain_order cs (filter (\<lambda>x. type x \<noteq> c) q)"

section \<open>Key-repeat suppression\<close>

text \<open>
  C1. The specification's run: delay 500, interval 100, a fresh keydown at timestamp 0
  followed by repeat keydowns at 0, 100, 400, 500, 600, 700. The threshold algorithm
  lets the repeats at 500, 600 and 700 through. \<open>Py_PollEvent\<close> also returns the repeats
  at 100 and 400: in the first-repeat branch it subtracts the event's timestamp from the
  saved one, and the unsigned difference \<open>0 - 100\<close> is not below the delay.
\<close>

theorem Py_PollEvent_repeat_run:
  "map (\<lambda>e. (uint (key_timestamp e), key_repeat e))
     (poll_n 7 \<lparr>delay = 500, interval = 100, firsttime = 0, timestamp = 0\<rparr> zero_event
        (keydown 0 0 # map (\<lambda>ts. keydown ts 1) [0, 100, 400, 500, 600, 700]))
   = [(0, 0), (100, 1), (400, 1), (500, 1), (600, 1), (700, 1)]
   \<and> spec_allowed 500 100 (True, 0) [0, 100, 400, 500, 600, 700] = [500, 600, 700]"
  by code_simp

section \<open>Type translation\<close>

lemma pg_type_to_sdl_labels:
  assumes "labels_distinct K"
  shows "pg_type_to_sdl K B (PGE_KEYDOWN K) = SDL_KEYDOWN"
    "pg_type_to_sdl K B (PGE_KEYUP K) = SDL_KEYUP"
    "pg_type_to_sdl K B (PGE_MOUSEMOTION K) = SDL_MOUSEMOTION"
    "pg_type_to_sdl K B (PGE_MOUSEBUTTONDOWN K) = SDL_MOUSEBUTTONDOWN"
    "pg_type_to_sdl K B (PGE_MOUSEBUTTONUP K) = SDL_MOUSEBUTTONUP"
    "pg_type_to_sdl K B (PGE_JOYAXISMOTION K) = SDL_JOYAXISMOTION"
    "pg_type_to_sdl K B (PGE_JOYBALLMOTION K) = SDL_JOYBALLMOTION"
    "pg_type_to_sdl K B (PGE_JOYHATMOTION K) = SDL_JOYHATMOTION"
    "pg_type_to_sdl K B (PGE_JOYBUTTONDOWN K) = SDL_JOYBUTTONDOWN"
    "pg_type_to_sdl K B (PGE_JOYBUTTONUP K) = SDL_JOYBUTTONUP"
    "pg_type_to_sdl K B (PGE_QUIT K) = SDL_QUIT"
    "pg_type_to_sdl K B (PGE_SYSWMEVENT K) = SDL_SYSWMEVENT"
proof -
  from assms have "distinct (switch_labels K)" and "distinct (rev (switch_labels K))"
    by (simp_all add: labels_distinct_def)
  then have d: "distinct (switch_labels K) \<and> distinct (rev (switch_labels K))" by simp
  show "pg_type_to_sdl K B (PGE_KEYDOWN K) = SDL_KEYDOWN"
    "pg_type_to_sdl K B (PGE_KEYUP K) = SDL_KEYUP"
    "pg_type_to_sdl K B (PGE_MOUSEMOTION K) = SDL_MOUSEMOTION"
    "pg_type_to_sdl K B (PGE_MOUSEBUTTONDOWN K) = SDL_MOUSEBUTTONDOWN"
    "pg_type_to_sdl K B (PGE_MOUSEBUTTONUP K) = SDL_MOUSEBUTTONUP"
    "pg_type_to_sdl K B (PGE_JOYAXISMOTION K) = SDL_JOYAXISMOTION"
    "pg_type_to_sdl K B (PGE_JOYBALLMOTION K) = SDL_JOYBALLMOTION"
    "pg_type_to_sdl K B (PGE_JOYHATMOTION K) = SDL_JOYHATMOTION"
    "pg_type_to_sdl K B (PGE_JOYBUTTONDOWN K) = SDL_JOYBUTTONDOWN"
    "pg_type_to_sdl K B (PGE_JOYBUTTONUP K) = SDL_JOYBUTTONUP"
    "pg_type_to_sdl K B (PGE_QUIT K) = SDL_QUIT"
    "pg_type_to_sdl K B (PGE_SYSWMEVENT K) = SDL_SYSWMEVENT"
    using d unfolding switch_labels_def pg_type_to_sdl_def by simp_all
qed

lemma pg_type_to_sdl_window:
  "pg_type_to_sdl K B (PGE_ACTIVEEVENT K) = SDL_WINDOWEVENT"
  "pg_type_to_sdl K B (PGE_VIDEORESIZE K) = SDL_WINDOWEVENT"
  "pg_type_to_sdl K B (PGE_VIDEOEXPOSE K) = SDL_WINDOWEVENT"
  by (simp_all add: pg_type_to_sdl_def)

lemma sdl_to_pg_codes:
  "type e = SDL_KEYDOWN \<Longrightarrow> sdl_to_pg K B e = PGE_KEYDOWN K"
  "type e = SDL_KEYUP \<Longrightarrow> sdl_to_pg K B e = PGE_KEYUP K"
  "type e = SDL_MOUSEMOTION \<Longrightarrow> sdl_to_pg K B e = PGE_MOUSEMOTION K"
  "type e = SDL_MOUSEBUTTONDOWN \<Longrightarrow> sdl_to_pg K B e = PGE_MOUSEBUTTONDOWN K"
  "type e = SDL_MOUSEBUTTONUP \<Longrightarrow> sdl_to_pg K B e = PGE_MOUSEBUTTONUP K"
  "type e = SDL_JOYAXISMOTION \<Longrightarrow> sdl_to_pg K B e = PGE_JOYAXISMOTION K"
  "type e = SDL_JOYBALLMOTION \<Longrightarrow> sdl_to_pg K B e = PGE_JOYBALLMOTION K"
  "type e = SDL_JOYHATMOTION \<Longrightarrow> sdl_to_pg K B e = PGE_JOYHATMOTION K"
  "type e = SDL_JOYBUTTONDOWN \<Longrightarrow> sdl_to_pg K B e = PGE_JOYBUTTONDOWN K"
  "type e = SDL_JOYBUTTONUP \<Longrightarrow> sdl_to_pg K B e = PGE_JOYBUTTONUP K"
  "type e = SDL_QUIT \<Longrightarrow> sdl_to_pg K B e = PGE_QUIT K"
  "type e = SDL_SYSWMEVENT \<Longrightarrow> sdl_to_pg K B e = PGE_SYSWMEVENT K"
  by (simp_all add: sdl_to_pg_def SDL_type_defs)

lemma sdl_to_pg_window:
  assumes "type e = SDL_WINDOWEVENT"
  shows "window_event e \<in> set active_subevents \<Longrightarrow> sdl_to_pg K B e = PGE_ACTIVEEVENT K"
    "window_event e = SDL_WINDOWEVENT_RESIZED \<Longrightarrow> sdl_to_pg K B e = PGE_VIDEORESIZE K"
    "window_event e = SDL_WINDOWEVENT_EXPOSED \<Longrightarrow> sdl_to_pg K B e = PGE_VIDEOEXPOSE K"
  using assms by (auto simp: sdl_to_pg_def active_subevents_def SDL_window_defs)

lemma direct_roundtrip:
  assumes "labels_distinct K" and "T \<in> set (direct_types K)"
    and "type e = pg_type_to_sdl K B T"
  shows "sdl_to_pg K B e = T"
proof -
  note l = pg_type_to_sdl_labels [OF assms(1), of B]
  from assms(2) consider "T = PGE_KEYDOWN K" | "T = PGE_KEYUP K" | "T = PGE_MOUSEMOTION K"
    | "T = PGE_MOUSEBUTTONDOWN K" | "T = PGE_MOUSEBUTTONUP K" | "T = PGE_JOYAXISMOTION K"
    | "T = PGE_JOYBALLMOTION K" | "T = PGE_JOYHATMOTION K" | "T = PGE_JOYBUTTONDOWN K"
    | "T = PGE_JOYBUTTONUP K" | "T = PGE_QUIT K" | "T = PGE_SYSWMEVENT K"
    unfolding direct_types_def by fastforce
  then show ?thesis
    using assms(3) by cases (simp_all add: l sdl_to_pg_codes)
qed

lemma labels_distinct_legacy: "labels_distinct legacy"
  by (simp add: labels_distinct_def switch_labels_def legacy_def)

lemma sdl_to_pg_window_other:
  assumes "type e = SDL_WINDOWEVENT" and "window_event e \<notin> set active_subevents"
    and "window_event e \<noteq> SDL_WINDOWEVENT_RESIZED"
    and "window_event e \<noteq> SDL_WINDOWEVENT_EXPOSED"
  shows "sdl_to_pg K B e = PGE_OTHEREVENT K"
  using assms by (simp add: sdl_to_pg_def active_subevents_def)

lemma window_labels_distinct:
  assumes "labels_distinct K"
  shows "PGE_ACTIVEEVENT K \<noteq> PGE_VIDEORESIZE K" "PGE_ACTIVEEVENT K \<noteq> PGE_VIDEOEXPOSE K"
    "PGE_VIDEORESIZE K \<noteq> PGE_VIDEOEXPOSE K" "PGE_VIDEORESIZE K \<noteq> PGE_ACTIVEEVENT K"
    "PGE_VIDEOEXPOSE K \<noteq> PGE_ACTIVEEVENT K" "PGE_VIDEOEXPOSE K \<noteq> PGE_VIDEORESIZE K"
proof -
  from assms have "distinct (switch_labels K)" and "distinct (rev (switch_labels K))"
    by (simp_all add: labels_distinct_def)
  then have d: "distinct (switch_labels K) \<and> distinct (rev (switch_labels K))" by simp
  show "PGE_ACTIVEEVENT K \<noteq> PGE_VIDEORESIZE K" "PGE_ACTIVEEVENT K \<noteq> PGE_VIDEOEXPOSE K"
    "PGE_VIDEORESIZE K \<noteq> PGE_VIDEOEXPOSE K" "PGE_VIDEORESIZE K \<noteq> PGE_ACTIVEEVENT K"
    "PGE_VIDEOEXPOSE K \<noteq> PGE_ACTIVEEVENT K" "PGE_VIDEOEXPOSE K \<noteq> PGE_VIDEORESIZE K"
    using d unfolding switch_labels_def by simp_all
qed

lemma window_subevents_apart:
  "SDL_WINDOWEVENT_RESIZED \<notin> set active_subevents"
  "SDL_WINDOWEVENT_EXPOSED \<notin> set active_subevents"
  "SDL_WINDOWEVENT_RESIZED \<noteq> SDL_WINDOWEVENT_EXPOSED"
  by (simp_all add: active_subevents_def SDL_window_defs)

lemma sdl_to_pg_window_iff:
  assumes "labels_distinct K" and "type e = SDL_WINDOWEVENT"
    and "PGE_OTHEREVENT K \<notin> {PGE_ACTIVEEVENT K, PGE_VIDEORESIZE K, PGE_VIDEOEXPOSE K}"
  shows "sdl_to_pg K B e = PGE_ACTIVEEVENT K \<longleftrightarrow> window_event e \<in> set active_subevents"
    and "sdl_to_pg K B e = PGE_VIDEORESIZE K \<longleftrightarrow> window_event e = SDL_WINDOWEVENT_RESIZED"
    and "sdl_to_pg K B e = PGE_VIDEOEXPOSE K \<longleftrightarrow> window_event e = SDL_WINDOWEVENT_EXPOSED"
proof -
  note d = window_labels_distinct [OF assms(1)]
  note w = sdl_to_pg_window [OF assms(2), of K B]
  note o = sdl_to_pg_window_other [OF assms(2), of K B]
  note s = window_subevents_apart
  consider (a) "window_event e \<in> set active_subevents"
    | (r) "window_event e = SDL_WINDOWEVENT_RESIZED"
    | (x) "window_event e = SDL_WINDOWEVENT_EXPOSED"
    | (n) "window_event e \<notin> set active_subevents"
        "window_event e \<noteq> SDL_WINDOWEVENT_RESIZED" "window_event e \<noteq> SDL_WINDOWEVENT_EXPOSED"
    by blast
  then have "(sdl_to_pg K B e = PGE_ACTIVEEVENT K \<longleftrightarrow> window_event e \<in> set active_subevents)
    \<and> (sdl_to_pg K B e = PGE_VIDEORESIZE K \<longleftrightarrow> window_event e = SDL_WINDOWEVENT_RESIZED)
    \<and> (sdl_to_pg K B e = PGE_VIDEOEXPOSE K \<longleftrightarrow> window_event e = SDL_WINDOWEVENT_EXPOSED)"
  proof cases
    case a
    with s have "window_event e \<noteq> SDL_WINDOWEVENT_RESIZED"
      "window_event e \<noteq> SDL_WINDOWEVENT_EXPOSED" by auto
    with a w(1) d show ?thesis by simp
  next
    case r
    with s w(2) d show ?thesis by simp
  next
    case x
    with s w(3) d show ?thesis by simp
  next
    case n
    with o assms(3) show ?thesis by simp
  qed
  then show "sdl_to_pg K B e = PGE_ACTIVEEVENT K \<longleftrightarrow> window_event e \<in> set active_subevents"
    and "sdl_to_pg K B e = PGE_VIDEORESIZE K \<longleftrightarrow> window_event e = SDL_WINDOWEVENT_RESIZED"
    and "sdl_to_pg K B e = PGE_VIDEOEXPOSE K \<longleftrightarrow> window_event e = SDL_WINDOWEVENT_EXPOSED"
    by simp_all
qed

text \<open>
  C5, as the code has it. Each of the twelve built-in types with a native code of its
  own is returned by \<open>sdl_to_pg\<close> for every native event that bears the code
  \<open>pg_type_to_sdl\<close> gives it. The active-state, resize and expose types all translate
  to the one code \<open>SDL_WINDOWEVENT\<close>; a window event is classified by its sub-event:
  enter, leave, focus gained or lost, minimized and restored are active-state, resized
  is resize, exposed is expose, and every other sub-event is the fallback type. So, the
  fallback type being none of the three, a window event is classified as one of them
  exactly when its sub-event belongs to that type.
\<close>

theorem builtin_roundtrip:
  assumes "labels_distinct K"
  shows "(T \<in> set (direct_types K) \<longrightarrow> type e = pg_type_to_sdl K B T
            \<longrightarrow> sdl_to_pg K B e = T)
    \<and> pg_type_to_sdl K B (PGE_ACTIVEEVENT K) = SDL_WINDOWEVENT
    \<and> pg_type_to_sdl K B (PGE_VIDEORESIZE K) = SDL_WINDOWEVENT
    \<and> pg_type_to_sdl K B (PGE_VIDEOEXPOSE K) = SDL_WINDOWEVENT
    \<and> (type e = SDL_WINDOWEVENT \<longrightarrow> window_event e \<in> set active_subevents
            \<longrightarrow> sdl_to_pg K B e = PGE_ACTIVEEVENT K)
    \<and> (type e = SDL_WINDOWEVENT \<longrightarrow> window_event e = SDL_WINDOWEVENT_RESIZED
            \<longrightarrow> sdl_to_pg K B e = PGE_VIDEORESIZE K)
    \<and> (type e = SDL_WINDOWEVENT \<longrightarrow> window_event e = SDL_WINDOWEVENT_EXPOSED
            \<longrightarrow> sdl_to_pg K B e = PGE_VIDEOEXPOSE K)
    \<and> (type e = SDL_WINDOWEVENT \<longrightarrow> window_event e \<notin> set active_subevents
            \<longrightarrow> window_event e \<noteq> SDL_WINDOWEVENT_RESIZED
            \<longrightarrow> window_event e \<noteq> SDL_WINDOWEVENT_EXPOSED
            \<longrightarrow> sdl_to_pg K B e = PGE_OTHEREVENT K)
    \<and> (type e = SDL_WINDOWEVENT
          \<longrightarrow> PGE_OTHEREVENT K \<notin> {PGE_ACTIVEEVENT K, PGE_VIDEORESIZE K, PGE_VIDEOEXPOSE K}
          \<longrightarrow> (sdl_to_pg K B e = PGE_ACTIVEEVENT K
                  \<longleftrightarrow> window_event e \<in> set active_subevents)
              \<and> (sdl_to_pg K B e = PGE_VIDEORESIZE K
                  \<longleftrightarrow> window_event e = SDL_WINDOWEVENT_RESIZED)
              \<and> (sdl_to_pg K B e = PGE_VIDEOEXPOSE K
                  \<longleftrightarrow> window_event e = SDL_WINDOWEVENT_EXPOSED))"
proof -
  have i: "type e = SDL_WINDOWEVENT
          \<longrightarrow> PGE_OTHEREVENT K \<notin> {PGE_ACTIVEEVENT K, PGE_VIDEORESIZE K, PGE_VIDEOEXPOSE K}
          \<longrightarrow> (sdl_to_pg K B e = PGE_ACTIVEEVENT K
                  \<longleftrightarrow> window_event e \<in> set active_subevents)
              \<and> (sdl_to_pg K B e = PGE_VIDEORESIZE K
                  \<longleftrightarrow> window_event e = SDL_WINDOWEVENT_RESIZED)
              \<and> (sdl_to_pg K B e = PGE_VIDEOEXPOSE K
                  \<longleftrightarrow> window_event e = SDL_WINDOWEVENT_EXPOSED)"
    using sdl_to_pg_window_iff [OF assms, of e B] by blast
  have o: "type e = SDL_WINDOWEVENT \<longrightarrow> window_event e \<notin> set active_subevents
            \<longrightarrow> window_event e \<noteq> SDL_WINDOWEVENT_RESIZED
            \<longrightarrow> window_event e \<noteq> SDL_WINDOWEVENT_EXPOSED
            \<longrightarrow> sdl_to_pg K B e = PGE_OTHEREVENT K"
    using sdl_to_pg_window_other [of e K B] by blast
  have f: "(T \<in> set (direct_types K) \<longrightarrow> type e = pg_type_to_sdl K B T
            \<longrightarrow> sdl_to_pg K B e = T)
    \<and> pg_type_to_sdl K B (PGE_ACTIVEEVENT K) = SDL_WINDOWEVENT
    \<and> pg_type_to_sdl K B (PGE_VIDEORESIZE K) = SDL_WINDOWEVENT
    \<and> pg_type_to_sdl K B (PGE_VIDEOEXPOSE K) = SDL_WINDOWEVENT
    \<and> (type e = SDL_WINDOWEVENT \<longrightarrow> window_event e \<in> set active_subevents
            \<longrightarrow> sdl_to_pg K B e = PGE_ACTIVEEVENT K)
    \<and> (type e = SDL_WINDOWEVENT \<longrightarrow> window_event e = SDL_WINDOWEVENT_RESIZED
            \<longrightarrow> sdl_to_pg K B e = PGE_VIDEORESIZE K)
    \<and> (type e = SDL_WINDOWEVENT \<longrightarrow> window_event e = SDL_WINDOWEVENT_EXPOSED
            \<longrightarrow> sdl_to_pg K B e = PGE_VIDEOEXPOSE K)"
    using direct_roundtrip [OF assms] pg_type_to_sdl_window [of K B]
      sdl_to_pg_window [of e K B]
    by simp
  from f o i show ?thesis by blast
qed

theorem builtin_roundtrip_witness:
  "labels_distinct legacy
   \<and> PGE_KEYDOWN legacy \<in> set (direct_types legacy)
   \<and> type (keydown 5 0) = pg_type_to_sdl legacy initial_band (PGE_KEYDOWN legacy)
   \<and> sdl_to_pg legacy initial_band (keydown 5 0) = PGE_KEYDOWN legacy
   \<and> type (window_ev SDL_WINDOWEVENT_RESIZED) = SDL_WINDOWEVENT
   \<and> sdl_to_pg legacy initial_band (window_ev SDL_WINDOWEVENT_RESIZED) = PGE_VIDEORESIZE legacy
   \<and> PGE_OTHEREVENT legacy
        \<notin> {PGE_ACTIVEEVENT legacy, PGE_VIDEORESIZE legacy, PGE_VIDEOEXPOSE legacy}
   \<and> sdl_to_pg legacy initial_band (window_ev SDL_WINDOWEVENT_RESIZED)
        \<noteq> PGE_ACTIVEEVENT legacy
   \<and> type (window_ev 4) = SDL_WINDOWEVENT
   \<and> window_event (window_ev 4) \<notin> set active_subevents
   \<and> window_event (window_ev 4) \<noteq> SDL_WINDOWEVENT_RESIZED
   \<and> window_event (window_ev 4) \<noteq> SDL_WINDOWEVENT_EXPOSED
   \<and> sdl_to_pg legacy initial_band (window_ev 4) = PGE_OTHEREVENT legacy
   \<and> sdl_to_pg legacy initial_band (window_ev 4) \<noteq> PGE_ACTIVEEVENT legacy"
proof -
  have m: "PGE_KEYDOWN legacy \<in> set (direct_types legacy)"
    by (simp add: direct_types_def)
  have t: "type (keydown 5 0) = pg_type_to_sdl legacy initial_band (PGE_KEYDOWN legacy)"
    by (simp add: keydown_def pg_type_to_sdl_labels [OF labels_distinct_legacy])
  have w: "type (window_ev SDL_WINDOWEVENT_RESIZED) = SDL_WINDOWEVENT"
    "window_event (window_ev SDL_WINDOWEVENT_RESIZED) = SDL_WINDOWEVENT_RESIZED"
    by (simp_all add: window_ev_def)
  have v: "type (window_ev 4) = SDL_WINDOWEVENT"
    "window_event (window_ev 4) \<notin> set active_subevents"
    "window_event (window_ev 4) \<noteq> SDL_WINDOWEVENT_RESIZED"
    "window_event (window_ev 4) \<noteq> SDL_WINDOWEVENT_EXPOSED"
    by (simp_all add: window_ev_def active_subevents_def SDL_window_defs)
  have o: "PGE_OTHEREVENT legacy
        \<notin> {PGE_ACTIVEEVENT legacy, PGE_VIDEORESIZE legacy, PGE_VIDEOEXPOSE legacy}"
    by (simp add: legacy_def)
  note a = builtin_roundtrip [OF labels_distinct_legacy,
      of "PGE_KEYDOWN legacy" "keydown 5 0" initial_band]
  note b = builtin_roundtrip [OF labels_distinct_legacy,
      of _ "window_ev SDL_WINDOWEVENT_RESIZED" initial_band]
  note c = builtin_roundtrip [OF labels_distinct_legacy, of _ "window_ev 4" initial_band]
  from a m t have a1: "sdl_to_pg legacy initial_band (keydown 5 0) = PGE_KEYDOWN legacy"
    by blast
  from b w have b1: "sdl_to_pg legacy initial_band (window_ev SDL_WINDOWEVENT_RESIZED)
      = PGE_VIDEORESIZE legacy"
    by blast
  from b w o window_subevents_apart(1)
  have b2: "sdl_to_pg legacy initial_band (window_ev SDL_WINDOWEVENT_RESIZED)
      \<noteq> PGE_ACTIVEEVENT legacy"
    by metis
  from c v have c1: "sdl_to_pg legacy initial_band (window_ev 4) = PGE_OTHEREVENT legacy"
    by blast
  from c v o have c2: "sdl_to_pg legacy initial_band (window_ev 4) \<noteq> PGE_ACTIVEEVENT legacy"
    by blast
  from labels_distinct_legacy m t a1 w(1) b1 o b2 v c1 c2 show ?thesis by blast
qed

text \<open>
  The claim as stated fails for the window types: a resized window event bears the code
  the active-state type translates to, and is classified as a resize.
\<close>

theorem builtin_roundtrip_counterexample:
  "type (window_ev SDL_WINDOWEVENT_RESIZED)
     = pg_type_to_sdl legacy initial_band (PGE_ACTIVEEVENT legacy)
   \<and> sdl_to_pg legacy initial_band (window_ev SDL_WINDOWEVENT_RESIZED)
     \<noteq> PGE_ACTIVEEVENT legacy"
  by (simp add: pg_type_to_sdl_def window_ev_def sdl_to_pg_def SDL_window_defs legacy_def)

section \<open>The user band\<close>

lemma uint_minus_1_32: "uint (- 1 :: 32 word) = 4294967295"
  by code_simp

text \<open>
  C3. The module initialisation registers the band only when \<open>first_user_event\<close>
  already differs from \<open>PGE_NON_SDL_EVENT\<close>, its initial value: whatever the native layer
  would return, the band stays unset. With the band unset the native code of the type
  \<open>PGE_USEREVENT + 1\<close> is 0 (the sum wraps), and a native event with code 0 is
  classified as \<open>PGE_OTHEREVENT\<close>.
\<close>

theorem user_band_after_modinit:
  "MODINIT_event K SDL_RegisterEvents initial_band = initial_band
   \<and> pg_type_to_sdl legacy (MODINIT_event legacy SDL_RegisterEvents initial_band)
        (PGE_USEREVENT legacy + 1) = 0
   \<and> sdl_to_pg legacy (MODINIT_event legacy SDL_RegisterEvents initial_band)
        (zero_event\<lparr>type := 0\<rparr>) = PGE_OTHEREVENT legacy
   \<and> PGE_OTHEREVENT legacy \<noteq> PGE_USEREVENT legacy + 1"
proof -
  have i: "MODINIT_event K' SDL_RegisterEvents initial_band = initial_band" for K'
    by (simp add: MODINIT_event_def initial_band_def)
  show ?thesis unfolding i
    by (simp add: pg_type_to_sdl_def sdl_to_pg_def legacy_def initial_band_def
        PGE_NON_SDL_EVENT_def SDL_type_defs zero_event_def)
qed

section \<open>The native code of the fallback type\<close>

lemma uint_lt_ssize: "uint (w :: 32 word) < PY_SSIZE_T_MAX"
proof -
  have "uint w < 2 ^ 32" using uint_bounded [of w] by simp
  then show ?thesis by (simp add: PY_SSIZE_T_MAX_def)
qed

lemma get_sdl_event_code_default:
  assumes "pe_dict e = None \<or> (\<exists>d. pe_dict e = Some d \<and> code_unusable B (d ''sdl2_type''))"
  shows "get_sdl_event_code B e = (sint (last_user_event B + 1), None)"
proof (cases "pe_dict e")
  case None
  then show ?thesis by (simp add: get_sdl_event_code_def)
next
  case (Some d)
  with assms have u: "code_unusable B (d ''sdl2_type'')" by simp
  show ?thesis
  proof (cases "d ''sdl2_type''")
    case None
    with Some show ?thesis by (simp add: get_sdl_event_code_def)
  next
    case v: (Some v)
    show ?thesis
    proof (cases v)
      case (PyInt n)
      with u v have r: "n > uint (last_user_event B) \<or> n < INT_MIN"
        by (simp add: code_unusable_def)
      obtain c err where p: "PyNumber_AsSsize_t v = (c, err)" by (cases "PyNumber_AsSsize_t v")
      with PyInt have "err = None" "c = max (- PY_SSIZE_T_MAX - 1) (min n PY_SSIZE_T_MAX)"
        by simp_all
      with r uint_lt_ssize [of "last_user_event B"]
      have "err = None \<and> (c > uint (last_user_event B) \<or> c < INT_MIN)"
        by (auto simp: INT_MIN_def PY_SSIZE_T_MAX_def)
      with Some v PyInt p show ?thesis
        by (simp add: get_sdl_event_code_def Let_def del: PyNumber_AsSsize_t.simps)
    next
      case (PyFloat x)
      with u v show ?thesis by (simp add: code_unusable_def)
    qed (use Some v in \<open>simp_all add: get_sdl_event_code_def\<close>)
  qed
qed

lemma get_sdl_event_code_in_range:
  assumes "pe_dict e = Some d" and "d ''sdl2_type'' = Some (PyInt n)"
    and "INT_MIN \<le> n" and "n \<le> uint (last_user_event B)"
  shows "get_sdl_event_code B e = (sint (word_of_int n :: 32 word), None)"
proof -
  from assms(4) uint_lt_ssize [of "last_user_event B"] have "n < PY_SSIZE_T_MAX" by simp
  with assms(3) have c: "max (- PY_SSIZE_T_MAX - 1) (min n PY_SSIZE_T_MAX) = n"
    by (simp add: INT_MIN_def PY_SSIZE_T_MAX_def)
  from assms(3,4) have t: "\<not> (n > uint (last_user_event B) \<or> n < INT_MIN)" by simp
  show ?thesis
    unfolding get_sdl_event_code_def Let_def assms(1,2) option.case PyNumber_Check.simps
      PyNumber_AsSsize_t.simps c
    using t by simp
qed

lemma get_sdl_event_code_recovered:
  assumes "pe_dict e = Some d" and "d ''sdl2_type'' = Some (PyInt n)"
    and "INT_MIN \<le> n" and "n < 2 ^ 31" and "n \<le> uint (last_user_event B)"
  shows "get_sdl_event_code B e = (n, None)"
proof -
  from assms(3,4) have s: "sint (word_of_int n :: 32 word) = n"
    by (simp add: INT_MIN_def sint_sbintrunc' signed_take_bit_int_eq_self)
  from get_sdl_event_code_in_range [OF assms(1,2,3,5)] show ?thesis
    by (simp only: s)
qed

lemma get_sdl_event_code_float:
  assumes "pe_dict e = Some d" and "d ''sdl2_type'' = Some (PyFloat x)"
  shows "get_sdl_event_code B e = (- 1, Some PyExc_TypeError)"
proof -
  have "(0 :: int) \<le> uint (last_user_event B)" by simp
  then have "\<not> - 1 > uint (last_user_event B)" by linarith
  moreover have "\<not> (- 1 :: int) < INT_MIN" by (simp add: INT_MIN_def)
  ultimately have "\<not> (- 1 > uint (last_user_event B) \<or> (- 1 :: int) < INT_MIN)" by blast
  then show ?thesis
    unfolding get_sdl_event_code_def Let_def assms option.case PyNumber_Check.simps
      PyNumber_AsSsize_t.simps
    by simp
qed

lemma event_post_pending:
  assumes "video_init S" and "pg_to_sdl K (user_band S) e = (c, Some err)"
    and "pe_dict e = Some d" and "p \<noteq> NULL"
  shows "\<exists>S'. event_post K p ev e S = Done (RAISE PyExc_SystemError, S')"
  using assms
  by (cases "events_ok S")
    (simp_all add: event_post_def returned_def PyEvent_FillUserEvent_def
      user_event_addobject_def SDL_PushEvent_def Let_def)

text \<open>
  C7, where the code departs from it. For an event of the fallback type, an integer
  under the \<open>sdl2_type\<close> key that fits a C \<open>int\<close> and is at most \<open>last_user_event\<close> is
  the native code (one from \<open>INT_MIN\<close> up to \<open>last_user_event\<close> is cut to the 32 bits of
  an \<open>int\<close>). When the dictionary is missing, or has no \<open>sdl2_type\<close> key, or holds
  under it a value that is not a number, or an integer above \<open>last_user_event\<close> or below
  \<open>INT_MIN\<close>, the native code is \<open>last_user_event + 1\<close>. In both cases no exception is
  set. For a float the conversion fails and the code does not notice: the native code is
  the failure value -1, the \<open>TypeError\<close> stays set, and \<open>event_post\<close>, which returns
  normally, ends in a \<open>SystemError\<close>.
\<close>

theorem other_event_code:
  assumes "pe_type e = PGE_OTHEREVENT K"
  shows "(pe_dict e = Some d \<and> d ''sdl2_type'' = Some (PyInt n) \<and> INT_MIN \<le> n \<and> n < 2 ^ 31
            \<and> n \<le> uint (last_user_event B)
          \<longrightarrow> pg_to_sdl K B e = (n, None))
    \<and> (pe_dict e = Some d \<and> d ''sdl2_type'' = Some (PyInt n) \<and> INT_MIN \<le> n
            \<and> n \<le> uint (last_user_event B)
          \<longrightarrow> pg_to_sdl K B e = (sint (word_of_int n :: 32 word), None))
    \<and> (pe_dict e = None \<or> (\<exists>d. pe_dict e = Some d \<and> code_unusable B (d ''sdl2_type''))
          \<longrightarrow> pg_to_sdl K B e = (sint (last_user_event B + 1), None))
    \<and> (pe_dict e = Some d \<and> d ''sdl2_type'' = Some (PyFloat x)
          \<longrightarrow> pg_to_sdl K B e = (- 1, Some PyExc_TypeError)
            \<and> (video_init S \<and> user_band S = B \<and> p \<noteq> NULL
                 \<longrightarrow> (\<exists>S'. event_post K p ev e S = Done (RAISE PyExc_SystemError, S'))))"
proof -
  have g: "pg_to_sdl K B e = get_sdl_event_code B e"
    using assms by (simp add: pg_to_sdl_def)
  have a: "pe_dict e = Some d \<and> d ''sdl2_type'' = Some (PyInt n) \<and> INT_MIN \<le> n \<and> n < 2 ^ 31
            \<and> n \<le> uint (last_user_event B)
          \<longrightarrow> pg_to_sdl K B e = (n, None)"
    unfolding g using get_sdl_event_code_recovered [of e d n B] by blast
  have a': "pe_dict e = Some d \<and> d ''sdl2_type'' = Some (PyInt n) \<and> INT_MIN \<le> n
            \<and> n \<le> uint (last_user_event B)
          \<longrightarrow> pg_to_sdl K B e = (sint (word_of_int n :: 32 word), None)"
    unfolding g using get_sdl_event_code_in_range [of e d n B] by blast
  have b: "pe_dict e = None \<or> (\<exists>d. pe_dict e = Some d \<and> code_unusable B (d ''sdl2_type''))
          \<longrightarrow> pg_to_sdl K B e = (sint (last_user_event B + 1), None)"
    unfolding g using get_sdl_event_code_default [of e B] by blast
  have c: "pe_dict e = Some d \<and> d ''sdl2_type'' = Some (PyFloat x)
          \<longrightarrow> pg_to_sdl K B e = (- 1, Some PyExc_TypeError)
            \<and> (video_init S \<and> user_band S = B \<and> p \<noteq> NULL
                 \<longrightarrow> (\<exists>S'. event_post K p ev e S = Done (RAISE PyExc_SystemError, S')))"
  proof (intro impI conjI)
    assume f: "pe_dict e = Some d \<and> d ''sdl2_type'' = Some (PyFloat x)"
    then show c1: "pg_to_sdl K B e = (- 1, Some PyExc_TypeError)"
      unfolding g using get_sdl_event_code_float [of e d x B] by blast
    assume v: "video_init S \<and> user_band S = B \<and> p \<noteq> NULL"
    with c1 have "pg_to_sdl K (user_band S) e = (- 1, Some PyExc_TypeError)" by simp
    from event_post_pending [OF _ this, of d p ev] v f
    show "\<exists>S'. event_post K p ev e S = Done (RAISE PyExc_SystemError, S')" by blast
  qed
  from a a' b c show ?thesis by blast
qed

theorem other_event_code_witness:
  "pe_type \<lparr>pe_type = 14, pe_dict = Some [''sdl2_type'' \<mapsto> PyInt 768]\<rparr> = PGE_OTHEREVENT legacy
   \<and> INT_MIN \<le> 768 \<and> (768 :: int) < 2 ^ 31
   \<and> 768 \<le> uint (last_user_event \<lparr>first_user_event = 0x8000, last_user_event = 0x8008\<rparr>)
   \<and> pg_to_sdl legacy \<lparr>first_user_event = 0x8000, last_user_event = 0x8008\<rparr>
        \<lparr>pe_type = 14, pe_dict = Some [''sdl2_type'' \<mapsto> PyInt 768]\<rparr> = (768, None)
   \<and> code_unusable \<lparr>first_user_event = 0x8000, last_user_event = 0x8008\<rparr> (Some (PyInt 36864))
   \<and> pg_to_sdl legacy \<lparr>first_user_event = 0x8000, last_user_event = 0x8008\<rparr>
        \<lparr>pe_type = 14, pe_dict = Some [''sdl2_type'' \<mapsto> PyInt 36864]\<rparr> = (32777, None)
   \<and> video_init initial_state \<and> user_band initial_state = initial_band \<and> (16 :: nat) \<noteq> NULL
   \<and> uint (last_user_event initial_band) < 10 ^ 10
   \<and> sint (last_user_event initial_band + 1) = 0
   \<and> pg_to_sdl legacy initial_band
        \<lparr>pe_type = 14, pe_dict = Some [''sdl2_type'' \<mapsto> PyFloat (10 ^ 10)]\<rparr>
       = (- 1, Some PyExc_TypeError)
   \<and> (\<exists>S'. event_post legacy 16 zero_event
               \<lparr>pe_type = 14, pe_dict = Some [''sdl2_type'' \<mapsto> PyFloat (10 ^ 10)]\<rparr> initial_state
             = Done (RAISE PyExc_SystemError, S'))"
proof -
  let ?B = "\<lparr>first_user_event = 0x8000, last_user_event = 0x8008\<rparr>"
  have t: "pe_type \<lparr>pe_type = 14, pe_dict = Some dd\<rparr> = PGE_OTHEREVENT legacy" for dd
    by (simp add: legacy_def)
  have r: "INT_MIN \<le> 768" "(768 :: int) < 2 ^ 31" "768 \<le> uint (last_user_event ?B)"
    by (simp_all add: INT_MIN_def)
  have u: "code_unusable ?B (Some (PyInt 36864))"
    by (simp add: code_unusable_def)
  have v: "video_init initial_state" "user_band initial_state = initial_band"
    "(16 :: nat) \<noteq> NULL"
    by (simp_all add: initial_state_def NULL_def)
  have l: "uint (last_user_event initial_band) < 10 ^ 10"
    "sint (last_user_event initial_band + 1) = 0"
    by (simp_all add: initial_band_def PGE_NON_SDL_EVENT_def uint_minus_1_32)
  note a = other_event_code [where K = legacy and B = ?B and n = 768
      and e = "\<lparr>pe_type = 14, pe_dict = Some [''sdl2_type'' \<mapsto> PyInt 768]\<rparr>"
      and d = "[''sdl2_type'' \<mapsto> PyInt 768]", OF t]
  note b = other_event_code [where K = legacy and B = ?B
      and e = "\<lparr>pe_type = 14, pe_dict = Some [''sdl2_type'' \<mapsto> PyInt 36864]\<rparr>", OF t]
  note c = other_event_code [where K = legacy and B = initial_band and x = "10 ^ 10"
      and e = "\<lparr>pe_type = 14, pe_dict = Some [''sdl2_type'' \<mapsto> PyFloat (10 ^ 10)]\<rparr>"
      and d = "[''sdl2_type'' \<mapsto> PyFloat (10 ^ 10)]" and S = initial_state and p = 16
      and ev = zero_event, OF t]
  from a r have a1: "pg_to_sdl legacy ?B
      \<lparr>pe_type = 14, pe_dict = Some [''sdl2_type'' \<mapsto> PyInt 768]\<rparr> = (768, None)"
    by simp
  from b u have b1: "pg_to_sdl legacy ?B
      \<lparr>pe_type = 14, pe_dict = Some [''sdl2_type'' \<mapsto> PyInt 36864]\<rparr> = (32777, None)"
    by simp
  from c v have c1: "pg_to_sdl legacy initial_band
        \<lparr>pe_type = 14, pe_dict = Some [''sdl2_type'' \<mapsto> PyFloat (10 ^ 10)]\<rparr>
       = (- 1, Some PyExc_TypeError)
   \<and> (\<exists>S'. event_post legacy 16 zero_event
               \<lparr>pe_type = 14, pe_dict = Some [''sdl2_type'' \<mapsto> PyFloat (10 ^ 10)]\<rparr> initial_state
             = Done (RAISE PyExc_SystemError, S'))"
    by simp
  from t [of "[''sdl2_type'' \<mapsto> PyInt 768]"] r a1 u b1 v l c1 show ?thesis by blast
qed

section \<open>The registry\<close>

lemma islist_live: "islist h p ps \<Longrightarrow> a \<in> set ps \<Longrightarrow> a \<noteq> NULL \<and> h a \<noteq> None"
  by (induction ps arbitrary: p) (auto split: option.splits)

lemma islist_unique: "islist h p ps \<Longrightarrow> islist h p qs \<Longrightarrow> ps = qs"
proof (induction ps arbitrary: p qs)
  case Nil
  then show ?case by (cases qs) auto
next
  case (Cons a ps)
  then show ?case by (cases qs) (auto split: option.splits)
qed

lemma islist_append:
  "islist h p (ps @ qs) \<Longrightarrow> \<exists>q. islist h q qs"
  by (induction ps arbitrary: p) (auto split: option.splits)

lemma islist_head_notin_tail:
  assumes "islist h a (a # as)"
  shows "a \<notin> set as"
proof
  assume "a \<in> set as"
  then obtain xs ys where s: "as = xs @ a # ys" by (auto simp: in_set_conv_decomp)
  from assms obtain n where n: "h a = Some n" "islist h (nxt n) as" by (auto split: option.splits)
  have "\<And>p. islist h p (xs @ a # ys) \<Longrightarrow> islist h (nxt n) ys"
    using n(1) by (induction xs) (auto split: option.splits)
  with n(2) s have "islist h (nxt n) ys" by blast
  with n(2) have "as = ys" by (rule islist_unique)
  with s show False by simp
qed

lemma islist_distinct: "islist h p ps \<Longrightarrow> distinct ps"
proof (induction ps arbitrary: p)
  case Nil
  then show ?case by simp
next
  case (Cons a ps)
  then have "a \<notin> set ps" using islist_head_notin_tail [of h a ps] by simp
  moreover from Cons have "distinct ps" by (auto split: option.splits)
  ultimately show ?case by simp
qed

lemma islist_upd_notin:
  "a \<notin> set ps \<Longrightarrow> islist (h(a := v)) p ps = islist h p ps"
  by (induction ps arbitrary: p) (auto split: option.splits)


lemma islist_next:
  "islist h p (a # b # bs) \<Longrightarrow> \<exists>n. h a = Some n \<and> nxt n = b"
  by (auto split: option.splits)

lemma hunt_loop_found:
  assumes "islist h p (xs @ q # u # ys)" and "p \<noteq> u"
  shows "hunt_loop h u p = Some (Done q)"
proof -
  from assms(1) have d: "distinct (xs @ q # u # ys)" by (rule islist_distinct)
  from assms d show ?thesis
  proof (induction xs arbitrary: p)
    case Nil
    then obtain n where "h q = Some n" "nxt n = u" "p = q" "q \<noteq> NULL"
      by (auto split: option.splits)
    then show ?case by (subst hunt_loop.simps) simp
  next
    case (Cons a xs)
    then obtain n where n: "h a = Some n" "islist h (nxt n) (xs @ q # u # ys)" "p = a" "a \<noteq> NULL"
      by (auto split: option.splits)
    have "nxt n \<noteq> u"
    proof (cases xs)
      case Nil
      with n(2) Cons.prems(3) show ?thesis by auto
    next
      case (Cons b bs)
      with n(2) Cons.prems(3) show ?thesis by auto
    qed
    moreover from this n(2) Cons.prems(3) have "hunt_loop h u (nxt n) = Some (Done q)"
      by (intro Cons.IH) auto
    ultimately show ?case using n by (subst hunt_loop.simps) simp
  qed
qed

lemma hunt_loop_notfound:
  assumes "islist h p ps" and "u \<notin> set ps" and "u \<noteq> NULL"
  shows "hunt_loop h u p = Some (Done NULL)"
  using assms
proof (induction ps arbitrary: p)
  case Nil
  then show ?case by (subst hunt_loop.simps) simp
next
  case (Cons a ps)
  then obtain n where n: "h a = Some n" "islist h (nxt n) ps" "p = a" "a \<noteq> NULL"
    by (auto split: option.splits)
  have "nxt n \<noteq> u" using n(2) Cons.prems(2,3) by (cases ps) auto
  moreover have "hunt_loop h u (nxt n) = Some (Done NULL)"
    using n(2) Cons.prems(2,3) by (intro Cons.IH) auto
  ultimately show ?case using n by (subst hunt_loop.simps) simp
qed

lemma islist_unlink:
  assumes "islist h p (xs @ q # u # ys)" and "distinct (xs @ q # u # ys)"
    and "h q = Some n" and "h u = Some un"
  shows "islist ((h(q \<mapsto> n\<lparr>nxt := nxt un\<rparr>))(u := None)) p (xs @ q # ys)"
  using assms
proof (induction xs arbitrary: p)
  case Nil
  then have f: "islist h (nxt un) ys" "q \<notin> set ys" "u \<notin> set ys" "p = q" "q \<noteq> NULL" "q \<noteq> u"
    by (auto split: option.splits)
  have "islist ((h(q \<mapsto> n\<lparr>nxt := nxt un\<rparr>))(u := None)) (nxt un) ys
      = islist (h(q \<mapsto> n\<lparr>nxt := nxt un\<rparr>)) (nxt un) ys"
    using f(3) by (rule islist_upd_notin)
  also have "\<dots> = islist h (nxt un) ys"
    using f(2) by (rule islist_upd_notin)
  finally have t: "islist ((h(q \<mapsto> n\<lparr>nxt := nxt un\<rparr>))(u := None)) (nxt un) ys"
    using f(1) by simp
  have "((h(q \<mapsto> n\<lparr>nxt := nxt un\<rparr>))(u := None)) q = Some (n\<lparr>nxt := nxt un\<rparr>)"
    using f(6) by simp
  with t f(4,5) show ?case by (simp del: fun_upd_apply)
next
  case (Cons a xs)
  then obtain m where m: "h a = Some m" "islist h (nxt m) (xs @ q # u # ys)" "p = a" "a \<noteq> NULL"
    by (auto split: option.splits)
  from Cons.prems(2) have "a \<noteq> q" "a \<noteq> u" "distinct (xs @ q # u # ys)" by auto
  with m Cons.IH [of "nxt m"] Cons.prems(3,4) show ?case by simp
qed

lemma payloads_upd_notin:
  "a \<notin> set ps \<Longrightarrow> payloads (h(a := v)) ps = payloads h ps"
  by (auto simp: payloads_def)

lemma payloads_relink:
  "h q = Some n \<Longrightarrow> payloads (h(q \<mapsto> n\<lparr>nxt := z\<rparr>)) ps = payloads h ps"
  by (auto simp: payloads_def)

lemma getobject_head:
  assumes "islist (nodes R) (user_event_objects R) (u # ys)"
  shows "\<exists>R'. user_event_getobject u R = Done (Some (object (the (nodes R u))), R')
     \<and> islist (nodes R') (user_event_objects R') ys
     \<and> payloads (nodes R') ys = payloads (nodes R) ys
     \<and> nodes R' u = None \<and> ob_refcnt R' = ob_refcnt R"
proof -
  from assms obtain n where n: "nodes R u = Some n" "islist (nodes R) (nxt n) ys"
    "user_event_objects R = u" "u \<noteq> NULL"
    by (auto split: option.splits)
  from assms have "u \<notin> set ys" using islist_distinct [OF assms] by simp
  with n show ?thesis
    by (simp add: user_event_getobject_def islist_upd_notin payloads_upd_notin)
qed

lemma getobject_inner:
  assumes "islist (nodes R) (user_event_objects R) (xs @ q # u # ys)"
  shows "\<exists>R'. user_event_getobject u R = Done (Some (object (the (nodes R u))), R')
     \<and> islist (nodes R') (user_event_objects R') (xs @ q # ys)
     \<and> payloads (nodes R') (xs @ q # ys) = payloads (nodes R) (xs @ q # ys)
     \<and> nodes R' u = None \<and> ob_refcnt R' = ob_refcnt R"
proof -
  let ?h = "nodes R" and ?p = "user_event_objects R"
  from assms have d: "distinct (xs @ q # u # ys)" by (rule islist_distinct)
  have live: "?h q \<noteq> None" "?h u \<noteq> None" "q \<noteq> NULL" "u \<noteq> NULL"
    using islist_live [OF assms, of q] islist_live [OF assms, of u] by simp_all
  then obtain n un where n: "?h q = Some n" "?h u = Some un" by auto
  have pne: "?p \<noteq> NULL" "?p \<noteq> u"
    using assms d by (cases xs; auto split: option.splits)+
  have hunt: "hunt_loop ?h u ?p = Some (Done q)"
    using assms pne(2) by (rule hunt_loop_found)
  have un: "u \<notin> set (xs @ q # ys)" using d by auto
  have l: "islist ((?h(q \<mapsto> n\<lparr>nxt := nxt un\<rparr>))(u := None)) ?p (xs @ q # ys)"
    using assms d n by (rule islist_unlink)
  have p: "payloads ((?h(q \<mapsto> n\<lparr>nxt := nxt un\<rparr>))(u := None)) (xs @ q # ys)
      = payloads ?h (xs @ q # ys)"
    using payloads_upd_notin [OF un, of "?h(q \<mapsto> n\<lparr>nxt := nxt un\<rparr>)" None]
      payloads_relink [of ?h q n "nxt un" "xs @ q # ys", OF n(1)]
    by (simp del: fun_upd_apply)
  show ?thesis
    using pne hunt live n l p by (simp add: user_event_getobject_def)
qed

lemma getobject_member:
  assumes "islist (nodes R) (user_event_objects R) ps" and "u \<in> set ps"
  shows "\<exists>R'. user_event_getobject u R = Done (Some (object (the (nodes R u))), R')
     \<and> islist (nodes R') (user_event_objects R') (remove1 u ps)
     \<and> payloads (nodes R') (remove1 u ps) = payloads (nodes R) (remove1 u ps)
     \<and> nodes R' u = None \<and> ob_refcnt R' = ob_refcnt R"
proof -
  from split_list_first [OF assms(2)]
  obtain zs ys where s: "ps = zs @ u # ys" "u \<notin> set zs" by blast
  show ?thesis
  proof (cases zs rule: rev_cases)
    case Nil
    with s have ps: "ps = u # ys" by simp
    have r: "remove1 u (u # ys) = ys" by simp
    have "islist (nodes R) (user_event_objects R) (u # ys)"
      using assms(1) unfolding ps .
    from getobject_head [OF this] show ?thesis unfolding ps r .
  next
    case (snoc xs q)
    with s have ps: "ps = xs @ q # u # ys" by simp
    from snoc s(2) have "u \<notin> set xs" "u \<noteq> q" by auto
    then have r: "remove1 u (xs @ q # u # ys) = xs @ q # ys"
      by (simp add: remove1_append)
    have "islist (nodes R) (user_event_objects R) (xs @ q # u # ys)"
      using assms(1) unfolding ps .
    from getobject_inner [OF this] show ?thesis unfolding ps r .
  qed
qed

lemma getobject_absent:
  assumes "islist (nodes R) (user_event_objects R) ps" and "u \<notin> set ps" and "u \<noteq> NULL"
  shows "user_event_getobject u R = Done (None, R)"
proof (cases ps)
  case Nil
  with assms(1) show ?thesis by (simp add: user_event_getobject_def)
next
  case (Cons a as)
  with assms have "user_event_objects R \<noteq> NULL" "user_event_objects R \<noteq> u"
    by (auto split: option.splits)
  then show ?thesis
    using hunt_loop_notfound [OF assms] by (simp add: user_event_getobject_def)
qed

lemma cleanup_loop_list:
  assumes "islist h p ps"
  shows "cleanup_loop h rc p
     = Some (Done (\<lambda>a. if a \<in> set ps then None else h a,
                   \<lambda>x. rc x - int (count_list (payloads h ps) x)))"
  using assms
proof (induction ps arbitrary: h rc p)
  case Nil
  then show ?case by (subst cleanup_loop.simps) (simp add: payloads_def)
next
  case (Cons a ps)
  then obtain n where n: "h a = Some n" "islist h (nxt n) ps" "p = a" "a \<noteq> NULL"
    by (auto split: option.splits)
  have na: "a \<notin> set ps" using islist_distinct [OF Cons.prems] by simp
  then have l: "islist (h(a := None)) (nxt n) ps" using n(2) by (simp add: islist_upd_notin)
  have pl: "payloads h (a # ps) = object n # payloads h ps"
    using n(1) by (simp add: payloads_def)
  let ?rc = "rc(object n := rc (object n) - 1)"
  have ih: "cleanup_loop (h(a := None)) ?rc (nxt n)
      = Some (Done (\<lambda>b. if b \<in> set ps then None else (h(a := None)) b,
                    \<lambda>x. ?rc x - int (count_list (payloads h ps) x)))"
    using Cons.IH [OF l, of ?rc] payloads_upd_notin [OF na, of h None]
    by (simp del: fun_upd_apply)
  have e1: "(\<lambda>b. if b \<in> set ps then None else (h(a := None)) b)
      = (\<lambda>b. if b \<in> set (a # ps) then None else h b)"
    by (auto simp: fun_eq_iff)
  have e2: "(\<lambda>x. ?rc x - int (count_list (payloads h ps) x))
      = (\<lambda>x. rc x - int (count_list (payloads h (a # ps)) x))"
    by (auto simp: fun_eq_iff pl)
  have "cleanup_loop h rc p = cleanup_loop (h(a := None)) ?rc (nxt n)"
    by (subst cleanup_loop.simps) (simp add: n)
  then show ?case by (simp only: ih e1 e2)
qed



text \<open>
  The pointer \<open>NULL\<close> is outside the statement above: with a cell in the list the scan
  for \<open>NULL\<close> stops at the last cell, and the code reads \<open>userobj->next\<close> through it.
\<close>

lemma getobject_NULL_fault:
  "user_event_getobject NULL (snd (user_event_addobject 16 x empty_registry)) = Fault"
proof -
  let ?n = "\<lparr>nxt = NULL, object = x\<rparr>"
  let ?R = "\<lparr>user_event_objects = 16, nodes = [16 \<mapsto> ?n],
     ob_refcnt = (\<lambda>_. 0)(x := 1)\<rparr>"
  have a: "snd (user_event_addobject 16 x empty_registry) = ?R"
    by (simp add: user_event_addobject_def empty_registry_def NULL_def)
  have h: "hunt_loop [16 \<mapsto> ?n] NULL 16 = Some (Done 16)"
    by (subst hunt_loop.simps) (simp add: NULL_def)
  have n: "(16 :: nat) \<noteq> NULL" by (simp add: NULL_def)
  show ?thesis unfolding a
    using n by (simp add: user_event_getobject_def h)
qed

lemma addobject_then_getobject:
  assumes "p \<noteq> NULL" and "nodes R p = None"
  shows "user_event_getobject p (snd (user_event_addobject p x R))
     = Done (Some x, R\<lparr>ob_refcnt := (ob_refcnt R)(x := ob_refcnt R x + 1)\<rparr>)"
proof -
  have "(nodes R)(p := None) = nodes R"
    using assms(2) by (auto simp: fun_eq_iff)
  then show ?thesis
    using assms(1) by (simp add: user_event_getobject_def user_event_addobject_def)
qed

lemma cleanup_list:
  assumes "islist (nodes R) (user_event_objects R) ps"
  shows "\<exists>R'. user_event_cleanup R = Done R' \<and> user_event_objects R' = NULL
     \<and> (\<forall>a \<in> set ps. nodes R' a = None)
     \<and> (\<forall>x. ob_refcnt R' x = ob_refcnt R x - int (count_list (payloads (nodes R) ps) x))"
proof (cases ps)
  case Nil
  with assms show ?thesis by (simp add: user_event_cleanup_def payloads_def)
next
  case (Cons a as)
  with assms have "user_event_objects R \<noteq> NULL" by auto
  then show ?thesis
    using cleanup_loop_list [OF assms, of "ob_refcnt R"]
    by (simp add: user_event_cleanup_def)
qed

lemma hunt_loop_NULL:
  assumes "islist h p ps" and "ps \<noteq> []"
  shows "hunt_loop h NULL p = Some (Done (last ps))"
  using assms
proof (induction ps arbitrary: p)
  case Nil
  then show ?case by simp
next
  case (Cons a ps)
  then obtain n where n: "h a = Some n" "islist h (nxt n) ps" "p = a" "a \<noteq> NULL"
    by (auto split: option.splits)
  show ?case
  proof (cases ps)
    case Nil
    with n(2) have "nxt n = NULL" by simp
    with n Nil show ?thesis by (subst hunt_loop.simps) simp
  next
    case (Cons b bs)
    with n(2) have "nxt n \<noteq> NULL" by (auto split: option.splits)
    moreover from Cons have "hunt_loop h NULL (nxt n) = Some (Done (last ps))"
      by (intro Cons.IH n(2)) simp
    ultimately show ?thesis using n Cons by (subst hunt_loop.simps) simp
  qed
qed

lemma getobject_NULL:
  assumes "islist (nodes R) (user_event_objects R) ps" and "ps \<noteq> []"
    and "nodes R NULL = None"
  shows "NULL \<notin> set ps \<and> user_event_getobject NULL R = Fault"
proof -
  from assms(1) have a: "NULL \<notin> set ps" using islist_live by fastforce
  from assms(2) have l: "last ps \<in> set ps" by simp
  with assms(1) have "last ps \<noteq> NULL" "nodes R (last ps) \<noteq> None"
    using islist_live by fastforce+
  then obtain n where n: "last ps \<noteq> NULL" "nodes R (last ps) = Some n" by blast
  from assms(1,2) have h: "user_event_objects R \<noteq> NULL"
    by (cases ps) (auto split: option.splits)
  from n h assms(3) hunt_loop_NULL [OF assms(1,2)]
  have "user_event_getobject NULL R = Fault"
    by (simp add: user_event_getobject_def)
  with a show ?thesis by simp
qed

text \<open>
  C6, where the code departs from it. From a registry whose cells form a list \<open>ps\<close>,
  with \<open>p\<close> the fresh cell the allocator returns: registering \<open>x\<close> returns the handle
  \<open>p\<close>, and retrieving \<open>p\<close> yields \<open>x\<close> and gives back the registry as it was (the
  reference to \<open>x\<close> goes to the caller). Retrieving any handle \<open>u\<close> of the list yields the
  object of its cell and leaves the list without \<open>u\<close>, the other objects in place.
  Retrieving a handle other than \<open>NULL\<close> that is not in the list returns \<open>NULL\<close> and
  changes nothing. \<open>user_event_cleanup\<close> ends with an empty list, every cell freed and
  every object released once for each cell that held it. The handle \<open>NULL\<close> is in no
  list, and retrieving it from a registry that is not empty does not return absent: the
  scan stops at the last cell, whose \<open>next\<close> is \<open>NULL\<close>, and the code reads
  \<open>userobj->next\<close> through the \<open>NULL\<close> handle.
\<close>

theorem registry_operations:
  assumes "islist (nodes R) (user_event_objects R) ps"
    and "p \<noteq> NULL" and "nodes R p = None"
  shows "fst (user_event_addobject p x R) = p
    \<and> user_event_getobject p (snd (user_event_addobject p x R))
        = Done (Some x, R\<lparr>ob_refcnt := (ob_refcnt R)(x := ob_refcnt R x + 1)\<rparr>)
    \<and> (u \<in> set ps \<longrightarrow>
         (\<exists>R'. user_event_getobject u R = Done (Some (object (the (nodes R u))), R')
            \<and> islist (nodes R') (user_event_objects R') (remove1 u ps)
            \<and> payloads (nodes R') (remove1 u ps) = payloads (nodes R) (remove1 u ps)
            \<and> nodes R' u = None \<and> ob_refcnt R' = ob_refcnt R))
    \<and> (u \<noteq> NULL \<and> u \<notin> set ps \<longrightarrow> user_event_getobject u R = Done (None, R))
    \<and> (ps \<noteq> [] \<and> nodes R NULL = None
          \<longrightarrow> NULL \<notin> set ps \<and> user_event_getobject NULL R = Fault)
    \<and> (\<exists>R'. user_event_cleanup R = Done R' \<and> user_event_objects R' = NULL
          \<and> (\<forall>a \<in> set ps. nodes R' a = None)
          \<and> (\<forall>y. ob_refcnt R' y
                = ob_refcnt R y - int (count_list (payloads (nodes R) ps) y)))"
proof -
  have 1: "fst (user_event_addobject p x R) = p"
    using assms(2) by (simp add: user_event_addobject_def)
  note 2 = addobject_then_getobject [OF assms(2,3), of x]
  have 3: "u \<in> set ps \<longrightarrow>
         (\<exists>R'. user_event_getobject u R = Done (Some (object (the (nodes R u))), R')
            \<and> islist (nodes R') (user_event_objects R') (remove1 u ps)
            \<and> payloads (nodes R') (remove1 u ps) = payloads (nodes R) (remove1 u ps)
            \<and> nodes R' u = None \<and> ob_refcnt R' = ob_refcnt R)"
    using getobject_member [OF assms(1), of u] by blast
  have 4: "u \<noteq> NULL \<and> u \<notin> set ps \<longrightarrow> user_event_getobject u R = Done (None, R)"
    using getobject_absent [OF assms(1), of u] by blast
  have 5: "ps \<noteq> [] \<and> nodes R NULL = None
          \<longrightarrow> NULL \<notin> set ps \<and> user_event_getobject NULL R = Fault"
    using getobject_NULL [OF assms(1)] by blast
  note 6 = cleanup_list [OF assms(1)]
  from 1 2 3 4 5 6 show ?thesis by blast
qed

theorem registry_operations_witness:
  "islist (nodes two_nodes) (user_event_objects two_nodes) [32, 16]
   \<and> (48 :: nat) \<noteq> NULL \<and> nodes two_nodes 48 = None
   \<and> user_event_getobject 48 (snd (user_event_addobject 48 9 two_nodes))
        = Done (Some 9, two_nodes\<lparr>ob_refcnt := (ob_refcnt two_nodes)(9 := 2)\<rparr>)
   \<and> (\<exists>R'. user_event_getobject 16 two_nodes = Done (Some 5, R')
          \<and> islist (nodes R') (user_event_objects R') [32])
   \<and> user_event_getobject 64 two_nodes = Done (None, two_nodes)
   \<and> nodes two_nodes NULL = None \<and> NULL \<notin> set [32, 16 :: nat]
   \<and> user_event_getobject NULL two_nodes = Fault
   \<and> (\<exists>R'. user_event_cleanup two_nodes = Done R' \<and> user_event_objects R' = NULL
          \<and> ob_refcnt R' 5 = 0 \<and> ob_refcnt R' 7 = 0 \<and> ob_refcnt R' 9 = 1)"
proof -
  have h1: "islist (nodes two_nodes) (user_event_objects two_nodes) [32, 16]"
    by (simp add: two_nodes_def NULL_def)
  have h2: "(48 :: nat) \<noteq> NULL" by (simp add: NULL_def)
  have h3: "nodes two_nodes 48 = None" by (simp add: two_nodes_def)
  have h4: "nodes two_nodes NULL = None" by (simp add: two_nodes_def NULL_def)
  have n: "(16 :: nat) \<noteq> NULL" "(64 :: nat) \<noteq> NULL" by (simp_all add: NULL_def)
  have o: "object (the (nodes two_nodes 16)) = 5" "ob_refcnt two_nodes 9 + 1 = 2"
    by (simp_all add: two_nodes_def)
  have c: "payloads (nodes two_nodes) [32, 16] = [7, 5]" "ob_refcnt two_nodes = (\<lambda>_. 1)"
    by (simp_all add: two_nodes_def payloads_def)
  note a = registry_operations [OF h1 h2 h3, of 9 16]
  note b = registry_operations [OF h1 h2 h3, of 9 64]
  from a have a2: "user_event_getobject 48 (snd (user_event_addobject 48 9 two_nodes))
        = Done (Some 9, two_nodes\<lparr>ob_refcnt := (ob_refcnt two_nodes)(9 := 2)\<rparr>)"
    by (simp add: o)
  from a have a3: "\<exists>R'. user_event_getobject 16 two_nodes = Done (Some 5, R')
          \<and> islist (nodes R') (user_event_objects R') [32]"
    by (auto simp: o)
  from b n have b4: "user_event_getobject 64 two_nodes = Done (None, two_nodes)"
    by simp
  from a h4 have a5: "NULL \<notin> set [32, 16 :: nat] \<and> user_event_getobject NULL two_nodes = Fault"
    by simp
  from a have a6: "\<exists>R'. user_event_cleanup two_nodes = Done R' \<and> user_event_objects R' = NULL
          \<and> ob_refcnt R' 5 = 0 \<and> ob_refcnt R' 7 = 0 \<and> ob_refcnt R' 9 = 1"
    unfolding c by auto
  from h1 h2 h3 a2 a3 b4 h4 a5 a6 show ?thesis by blast
qed

section \<open>Decoding\<close>

lemma dict_from_event_native:
  "\<not> user_posted e \<Longrightarrow>
   dict_from_event K B R e = Done (fst (dict_generic K B e), R, snd (dict_generic K B e))"
  unfolding dict_from_event_def user_posted_def by (auto split: prod.splits)

lemma PyEvent_New_native:
  "\<not> user_posted e \<Longrightarrow>
   PyEvent_New K B R (Some e) = Done (decode K B e, R, Some (snd (dict_generic K B e)))"
  by (simp add: PyEvent_New_def dict_from_event_native decode_def)

lemma insobj_other: "k \<noteq> name \<Longrightarrow> insobj d name v k = d k"
  by (simp add: insobj_def split: option.splits)

lemma dict_switch_joyaxis:
  assumes "labels_distinct K"
  shows "dict_switch K (PGE_JOYAXISMOTION K) e d ''value''
     = Some (PyFloat (real_of_int (sint (jaxis_value e)) / 32767))"
proof -
  from assms have "distinct (rev (switch_labels K))"
    by (simp add: labels_distinct_def)
  then show ?thesis
    unfolding switch_labels_def dict_switch_def
    by (simp add: insobj_def Let_def)
qed

lemma dict_generic_joyaxis:
  assumes "labels_distinct K" and "type e = SDL_JOYAXISMOTION"
  shows "fst (dict_generic K B e) ''value''
     = Some (PyFloat (real_of_int (sint (jaxis_value e)) / 32767))"
proof -
  have t: "sdl_to_pg K B e = PGE_JOYAXISMOTION K"
    using assms(2) by (rule sdl_to_pg_codes)
  have w: "type e \<noteq> SDL_WINDOWEVENT" using assms(2) by (simp add: SDL_type_defs)
  show ?thesis
    unfolding dict_generic_def t
    by (simp add: Let_def w insobj_other dict_switch_joyaxis [OF assms(1)] split: prod.splits)
qed

lemma sint16_range: "- 32768 \<le> sint (w :: 16 word) \<and> sint w \<le> 32767"
  using sint_ge [of w] sint_lt [of w] by simp

text \<open>
  C9, as the code has it. For a native joystick-axis event (one the module did not post
  itself) the decoded \<open>value\<close> is the axis value divided by 32767. It lies between
  \<open>-32768/32767\<close> and 1 for every 16-bit axis value, and is at least -1 for every axis
  value but -32768.
\<close>

theorem joyaxis_value:
  assumes "labels_distinct K" and "type e = SDL_JOYAXISMOTION" and "\<not> user_posted e"
  shows "dict_from_event K B R e = Done (fst (dict_generic K B e), R, snd (dict_generic K B e))
    \<and> fst (dict_generic K B e) ''value''
        = Some (PyFloat (real_of_int (sint (jaxis_value e)) / 32767))
    \<and> - 32768 / 32767 \<le> real_of_int (sint (jaxis_value e)) / 32767
    \<and> real_of_int (sint (jaxis_value e)) / 32767 \<le> 1
    \<and> (sint (jaxis_value e) \<noteq> - 32768
          \<longrightarrow> - 1 \<le> real_of_int (sint (jaxis_value e)) / 32767)"
proof -
  have r: "- 32768 \<le> sint (jaxis_value e)" "sint (jaxis_value e) \<le> 32767"
    using sint16_range [of "jaxis_value e"] by simp_all
  then have b: "- 32768 / 32767 \<le> real_of_int (sint (jaxis_value e)) / 32767"
    "real_of_int (sint (jaxis_value e)) / 32767 \<le> 1"
    by (simp_all add: divide_le_cancel del: of_int_sint)
  have c: "sint (jaxis_value e) \<noteq> - 32768
      \<longrightarrow> - 1 \<le> real_of_int (sint (jaxis_value e)) / 32767"
  proof
    assume "sint (jaxis_value e) \<noteq> - 32768"
    with r(1) have "- 32767 \<le> sint (jaxis_value e)" by simp
    then show "- 1 \<le> real_of_int (sint (jaxis_value e)) / 32767"
      by (simp del: of_int_sint)
  qed
  from dict_from_event_native [OF assms(3)] dict_generic_joyaxis [OF assms(1,2)] b c
  show ?thesis by blast
qed

theorem joyaxis_value_witness:
  "labels_distinct legacy \<and> type (joyaxis 16384) = SDL_JOYAXISMOTION
   \<and> \<not> user_posted (joyaxis 16384)
   \<and> fst (dict_generic legacy initial_band (joyaxis 16384)) ''value''
       = Some (PyFloat (16384 / 32767))
   \<and> sint (jaxis_value (joyaxis 16384)) \<noteq> - 32768
   \<and> (- 1 :: real) \<le> 16384 / 32767"
proof -
  have t: "type (joyaxis 16384) = SDL_JOYAXISMOTION" by (simp add: joyaxis_def)
  have u: "\<not> user_posted (joyaxis 16384)"
    by (simp add: user_posted_def joyaxis_def zero_event_def USEROBJECT_CHECK1_def)
  have v: "sint (jaxis_value (joyaxis 16384)) = 16384" by (simp add: joyaxis_def)
  from joyaxis_value [OF labels_distinct_legacy t u, of initial_band empty_registry]
  show ?thesis using labels_distinct_legacy t u v by simp
qed

text \<open>
  The claim as stated fails at the lowest axis value: -32768 is decoded as
  \<open>-32768/32767\<close>, which is below -1.
\<close>

theorem joyaxis_value_counterexample:
  "dict_from_event legacy initial_band empty_registry (joyaxis (- 32768))
     = Done (fst (dict_generic legacy initial_band (joyaxis (- 32768))), empty_registry,
             snd (dict_generic legacy initial_band (joyaxis (- 32768))))
   \<and> fst (dict_generic legacy initial_band (joyaxis (- 32768))) ''value''
       = Some (PyFloat (- 32768 / 32767))
   \<and> (- 32768 / 32767 :: real) < - 1"
proof -
  have t: "type (joyaxis (- 32768)) = SDL_JOYAXISMOTION" by (simp add: joyaxis_def)
  have u: "\<not> user_posted (joyaxis (- 32768))"
    by (simp add: user_posted_def joyaxis_def zero_event_def USEROBJECT_CHECK1_def)
  have v: "sint (jaxis_value (joyaxis (- 32768))) = - 32768" by (simp add: joyaxis_def)
  from dict_from_event_native [OF u] dict_generic_joyaxis [OF labels_distinct_legacy t]
  show ?thesis by (simp add: v)
qed

section \<open>The scan of the queue\<close>

lemma bit0_irrelevant:
  "1 \<le> ty \<Longrightarrow> push_bit (nat ty) (1 :: 32 word) AND (m OR 1) = push_bit (nat ty) 1 AND m"
  by (rule bit_eqI) (auto simp: bit_simps)

lemma SDL_PeepEvents_True_cases:
  assumes "SDL_PeepEvents True action c c e q = (n, e', q')" and "action \<noteq> SDL_ADDEVENT"
  shows "(n = 1) \<or> (n = 0 \<and> e' = e \<and> q' = q)"
  using assms
  by (cases action) (auto simp: SDL_PeepEvents_def split: option.splits)

lemma PG_PeepEvents_loop_scan:
  assumes "0 \<le> ty" and "ty \<le> PGE_NUMEVENTS K" and "PGE_NUMEVENTS K \<le> 32"
    and "action \<noteq> SDL_ADDEVENT"
  shows "PG_PeepEvents_loop K B True action mask0 ty 0 e q
     = Done (scan_codes action
         (map (pg_type_to_sdl K B)
            (filter (\<lambda>t. push_bit (nat t) (1 :: 32 word) AND mask0 \<noteq> 0
                        \<and> pg_type_to_sdl K B t \<noteq> PGE_NON_SDL_EVENT)
               [ty .. PGE_NUMEVENTS K - 1])) e q)"
  using assms
proof (induction "nat (PGE_NUMEVENTS K - ty)" arbitrary: ty e q)
  case 0
  then have "ty = PGE_NUMEVENTS K" by simp
  then show ?case by (subst PG_PeepEvents_loop.simps) simp
next
  case (Suc k)
  then have lt: "ty < PGE_NUMEVENTS K" and k: "k = nat (PGE_NUMEVENTS K - (ty + 1))" by simp_all
  have up: "[ty .. PGE_NUMEVENTS K - 1] = ty # [ty + 1 .. PGE_NUMEVENTS K - 1]"
    using lt by (simp add: upto_rec1)
  have rng: "\<not> (ty < 0 \<or> ty \<ge> 32)" using Suc.prems lt by simp
  note ih = Suc.hyps(1) [OF k, of _ _]
  have ih': "PG_PeepEvents_loop K B True action mask0 (ty + 1) 0 e1 q1
     = Done (scan_codes action
         (map (pg_type_to_sdl K B)
            (filter (\<lambda>t. push_bit (nat t) (1 :: 32 word) AND mask0 \<noteq> 0
                        \<and> pg_type_to_sdl K B t \<noteq> PGE_NON_SDL_EVENT)
               [ty + 1 .. PGE_NUMEVENTS K - 1])) e1 q1)" for e1 q1
    using Suc.prems lt by (intro ih) simp_all
  show ?case
  proof (cases "push_bit (nat ty) (1 :: 32 word) AND mask0 \<noteq> 0
      \<and> pg_type_to_sdl K B ty \<noteq> PGE_NON_SDL_EVENT")
    case False
    then show ?thesis
      using lt rng by (subst PG_PeepEvents_loop.simps) (auto simp: up ih' Let_def)
  next
    case True
    obtain n e1 q1 where p: "SDL_PeepEvents True action (pg_type_to_sdl K B ty)
        (pg_type_to_sdl K B ty) e q = (n, e1, q1)"
      by (metis prod_cases3)
    from SDL_PeepEvents_True_cases [OF p Suc.prems(4)]
    consider "n = 1" | "n = 0" "e1 = e" "q1 = q" by blast
    then show ?thesis
    proof cases
      case 1
      have stop: "PG_PeepEvents_loop K B True action mask0 (ty + 1) 1 e1 q1 = Done (1, e1, q1)"
        by (subst PG_PeepEvents_loop.simps) simp
      show ?thesis
        using lt rng True p 1 stop
        by (subst PG_PeepEvents_loop.simps) (simp add: up Let_def)
    next
      case 2
      show ?thesis
        using lt rng True p 2
        by (subst PG_PeepEvents_loop.simps) (simp add: up Let_def ih')
    qed
  qed
qed

lemma PG_PeepEvents_scan:
  assumes "1 \<le> PGE_NUMEVENTS K" and "PGE_NUMEVENTS K \<le> 32" and "action \<noteq> SDL_ADDEVENT"
  shows "PG_PeepEvents K B True action mask0 e q
     = Done (scan_codes action (scanned_codes K B mask0) e q)"
  using PG_PeepEvents_loop_scan [of 1 K action B mask0 e q] assms
  by (simp add: PG_PeepEvents_def scanned_codes_def scanned_types_def)

lemma PG_PeepEvents_loop_bit0:
  "1 \<le> ty \<Longrightarrow>
   PG_PeepEvents_loop K B ok action (mask0 OR 1) ty tally e q
     = PG_PeepEvents_loop K B ok action mask0 ty tally e q"
proof (induction K B ok action mask0 ty tally e q rule: PG_PeepEvents_loop.induct)
  case (1 K B ok action mask0 ty tally events q)
  have b: "push_bit (nat ty) (1 :: 32 word) AND (mask0 OR 1) = push_bit (nat ty) 1 AND mask0"
    using "1.prems" by (rule bit0_irrelevant)
  have n: "1 \<le> ty + 1" using "1.prems" by simp
  note L = PG_PeepEvents_loop.simps [of K B ok action "mask0 OR 1" ty tally events q, unfolded b]
  note R = PG_PeepEvents_loop.simps [of K B ok action mask0 ty tally events q]
  show ?case
  proof (cases "tally < 1 \<and> ty \<noteq> PGE_NUMEVENTS K")
    case False
    show ?thesis unfolding L R by (simp only: False if_False)
  next
    case go: True
    show ?thesis
    proof (cases "ty < 0 \<or> ty \<ge> 32")
      case True
      with go show ?thesis by (simp add: L R)
    next
      case range: False
      show ?thesis
      proof (cases "push_bit (nat ty) (1 :: 32 word) AND mask0 \<noteq> 0")
        case False
        with go range "1.IH"(3) [OF go range False n] show ?thesis by (simp add: L R)
      next
        case bit: True
        show ?thesis
        proof (cases "pg_type_to_sdl K B ty \<noteq> PGE_NON_SDL_EVENT")
          case False
          with go range bit "1.IH"(2) [OF go range bit refl False n] show ?thesis
            by (simp add: L R)
        next
          case native: True
          obtain m ev q1 where p: "(m, ev, q1) = SDL_PeepEvents ok action
              (pg_type_to_sdl K B ty) (pg_type_to_sdl K B ty) events q"
            by (metis prod_cases3)
          show ?thesis
          proof (cases "m = - 1")
            case True
            with go range bit native p [symmetric] show ?thesis by (simp add: L R)
          next
            case False
            from "1.IH"(1) [OF go range bit refl native p refl False n]
            show ?thesis
              using go range bit native p [symmetric] False by (simp add: L R)
          qed
        qed
      qed
    qed
  qed
qed

lemma PG_PeepEvents_bit0:
  "PG_PeepEvents K B ok action (mask0 OR 1) e q = PG_PeepEvents K B ok action mask0 e q"
  by (simp add: PG_PeepEvents_def PG_PeepEvents_loop_bit0)


lemma take_first_Some:
  "take_first P q = Some (x, q') \<Longrightarrow>
   \<exists>us vs. q = us @ x # vs \<and> q' = us @ vs \<and> P x \<and> (\<forall>u \<in> set us. \<not> P u)"
proof (induction q arbitrary: x q')
  case Nil
  then show ?case by simp
next
  case (Cons a q)
  show ?case
  proof (cases "P a")
    case True
    with Cons.prems have "x = a" "q' = q" by simp_all
    with True show ?thesis by (rule_tac x = "[]" in exI, rule_tac x = q in exI) simp
  next
    case False
    with Cons.prems obtain q1 where t: "take_first P q = Some (x, q1)" "q' = a # q1"
      by (auto split: option.splits)
    from Cons.IH [OF t(1)] obtain us vs where
      "q = us @ x # vs" "q1 = us @ vs" "P x" "\<forall>u \<in> set us. \<not> P u" by blast
    with False t(2) show ?thesis
      by (rule_tac x = "a # us" in exI, rule_tac x = vs in exI) simp
  qed
qed

lemma take_first_None: "take_first P q = None \<Longrightarrow> \<forall>x \<in> set q. \<not> P x"
  by (induction q) (auto split: if_splits option.splits)

lemma scanned_code_step:
  assumes "SDL_PeepEvents True SDL_GETEVENT c c e q = (n, e', q')"
  shows "(n = 1 \<and> type e' = c
          \<and> (\<exists>us vs. q = us @ e' # vs \<and> q' = us @ vs \<and> (\<forall>u \<in> set us. type u \<noteq> c)))
       \<or> (n = 0 \<and> e' = e \<and> q' = q \<and> (\<forall>x \<in> set q. type x \<noteq> c))"
proof -
  have eq: "(\<lambda>x. c \<le> type x \<and> type x \<le> c) = (\<lambda>x. type x = c)"
    by (auto simp: fun_eq_iff)
  have peep: "SDL_PeepEvents True SDL_GETEVENT c c e q
      = (case take_first (\<lambda>x. type x = c) q of
           None \<Rightarrow> (0, e, q) | Some (x, q1) \<Rightarrow> (1, x, q1))"
    by (simp add: SDL_PeepEvents_def eq)
  show ?thesis
  proof (cases "take_first (\<lambda>x. type x = c) q")
    case None
    from take_first_None [OF None] have "\<forall>x \<in> set q. type x \<noteq> c" by simp
    with assms None show ?thesis by (simp add: peep)
  next
    case (Some r)
    obtain x q1 where r: "r = (x, q1)" by (cases r)
    from take_first_Some [OF Some [unfolded r]] obtain us vs where
      d: "q = us @ x # vs" "q1 = us @ vs" "type x = c" "\<forall>u \<in> set us. type u \<noteq> c"
      by blast
    from assms Some r have "n = 1" "e' = x" "q' = q1" by (simp_all add: peep)
    with d show ?thesis by blast
  qed
qed

lemma drain_order_none:
  "\<forall>x \<in> set q. type x \<notin> set cs \<Longrightarrow> drain_order cs q = []"
proof (induction cs arbitrary: q)
  case Nil
  show ?case by simp
next
  case (Cons c cs)
  then have "filter (\<lambda>x. type x = c) q = []" by (auto simp: filter_empty_conv)
  moreover have "drain_order cs (filter (\<lambda>x. type x \<noteq> c) q) = []"
    using Cons.prems by (intro Cons.IH) auto
  ultimately show ?case by simp
qed

lemma drain_order_skip:
  "\<forall>x \<in> set q. type x \<noteq> c \<Longrightarrow> drain_order (c # cs) q = drain_order cs q"
proof -
  assume a: "\<forall>x \<in> set q. type x \<noteq> c"
  then have "filter (\<lambda>x. type x = c) q = []" by (auto simp: filter_empty_conv)
  moreover from a have "filter (\<lambda>x. type x \<noteq> c) q = q" by (auto simp: filter_id_conv)
  ultimately show ?thesis by simp
qed

lemma scan_codes_get:
  assumes "scan_codes SDL_GETEVENT cs e q = (n, e', q')"
  shows "(n = 1 \<and> type e' \<in> set cs \<and> (\<exists>us vs. q = us @ e' # vs \<and> q' = us @ vs)
          \<and> drain_order cs q = e' # drain_order cs q')
       \<or> (n = 0 \<and> e' = e \<and> q' = q \<and> (\<forall>x \<in> set q. type x \<notin> set cs))"
  using assms
proof (induction cs arbitrary: e)
  case Nil
  then show ?case by simp
next
  case (Cons c cs)
  obtain m e1 q1 where p: "SDL_PeepEvents True SDL_GETEVENT c c e q = (m, e1, q1)"
    by (metis prod_cases3)
  from scanned_code_step [OF p] show ?case
  proof (elim disjE conjE exE)
    fix us vs
    assume f: "m = 1" "type e1 = c" "q = us @ e1 # vs" "q1 = us @ vs"
      "\<forall>u \<in> set us. type u \<noteq> c"
    with Cons.prems p have r: "n = 1" "e' = e1" "q' = q1" by simp_all
    from f have "filter (\<lambda>x. type x = c) q = e1 # filter (\<lambda>x. type x = c) q1"
      "filter (\<lambda>x. type x \<noteq> c) q = filter (\<lambda>x. type x \<noteq> c) q1"
      by (auto simp: filter_empty_conv)
    then have "drain_order (c # cs) q = e1 # drain_order (c # cs) q1" by simp
    with f r show ?thesis by auto
  next
    assume f: "m = 0" "e1 = e" "q1 = q" "\<forall>x \<in> set q. type x \<noteq> c"
    with Cons.prems p have s: "scan_codes SDL_GETEVENT cs e q = (n, e', q')" by simp
    from Cons.IH [OF s] show ?thesis
    proof (elim disjE conjE exE)
      fix us vs
      assume g: "n = 1" "type e' \<in> set cs" "q = us @ e' # vs" "q' = us @ vs"
        "drain_order cs q = e' # drain_order cs q'"
      from g(3,4) f(4) have "\<forall>x \<in> set q'. type x \<noteq> c" by auto
      then have "drain_order (c # cs) q' = drain_order cs q'" by (rule drain_order_skip)
      moreover have "drain_order (c # cs) q = drain_order cs q"
        using f(4) by (rule drain_order_skip)
      ultimately show ?thesis using g by auto
    next
      assume "n = 0" "e' = e" "q' = q" "\<forall>x \<in> set q. type x \<notin> set cs"
      with f(4) show ?thesis by auto
    qed
  qed
qed

lemma event_clear_loop_drains:
  assumes "1 \<le> PGE_NUMEVENTS K" and "PGE_NUMEVENTS K \<le> 32"
  shows "\<exists>e'. event_clear_loop K B True mask0 e q
     = Done (e', filter (\<lambda>x. type x \<notin> set (scanned_codes K B mask0)) q)"
proof (induction "length q" arbitrary: q e rule: less_induct)
  case less
  let ?cs = "scanned_codes K B mask0"
  obtain n e1 q1 where s: "scan_codes SDL_GETEVENT ?cs e q = (n, e1, q1)"
    by (metis prod_cases3)
  have pg: "PG_PeepEvents K B True SDL_GETEVENT mask0 e q = Done (n, e1, q1)"
    using PG_PeepEvents_scan [OF assms, of SDL_GETEVENT B mask0 e q] s by simp
  from scan_codes_get [OF s] show ?case
  proof (elim disjE conjE exE)
    fix us vs
    assume f: "n = 1" "type e1 \<in> set ?cs" "q = us @ e1 # vs" "q1 = us @ vs"
    then have "length q1 < length q" by simp
    from less [OF this] obtain e' where
      "event_clear_loop K B True mask0 e1 q1
         = Done (e', filter (\<lambda>x. type x \<notin> set ?cs) q1)" by blast
    moreover have "filter (\<lambda>x. type x \<notin> set ?cs) q1 = filter (\<lambda>x. type x \<notin> set ?cs) q"
      using f by simp
    ultimately show ?thesis
      by (subst event_clear_loop.simps) (simp add: pg f(1))
  next
    assume f: "n = 0" "e1 = e" "q1 = q" "\<forall>x \<in> set q. type x \<notin> set ?cs"
    then have "filter (\<lambda>x. type x \<notin> set ?cs) q = q" by (simp add: filter_id_conv)
    with f show ?thesis
      by (subst event_clear_loop.simps) (simp add: pg)
  qed
qed

lemma event_get_loop_drains:
  assumes "1 \<le> PGE_NUMEVENTS K" and "PGE_NUMEVENTS K \<le> 32"
    and "\<forall>x \<in> set q. \<not> user_posted x"
  shows "\<exists>e'. event_get_loop K B True mask0 R e q list
     = Done (list @ map (decode K B) (drain_order (scanned_codes K B mask0) q), R, e',
             filter (\<lambda>x. type x \<notin> set (scanned_codes K B mask0)) q)"
  using assms(3)
proof (induction "length q" arbitrary: q e list rule: less_induct)
  case less
  let ?cs = "scanned_codes K B mask0"
  obtain n e1 q1 where s: "scan_codes SDL_GETEVENT ?cs e q = (n, e1, q1)"
    by (metis prod_cases3)
  have pg: "PG_PeepEvents K B True SDL_GETEVENT mask0 e q = Done (n, e1, q1)"
    using PG_PeepEvents_scan [OF assms(1,2), of SDL_GETEVENT B mask0 e q] s by simp
  from scan_codes_get [OF s] show ?case
  proof (elim disjE conjE exE)
    fix us vs
    assume f: "n = 1" "type e1 \<in> set ?cs" "q = us @ e1 # vs" "q1 = us @ vs"
      "drain_order ?cs q = e1 # drain_order ?cs q1"
    then have l: "length q1 < length q" by simp
    from f less.prems have native: "\<not> user_posted e1" "\<forall>x \<in> set q1. \<not> user_posted x"
      by auto
    from less.hyps [OF l native(2), of "snd (dict_generic K B e1)" "list @ [decode K B e1]"]
    obtain e' where
      "event_get_loop K B True mask0 R (snd (dict_generic K B e1)) q1 (list @ [decode K B e1])
         = Done ((list @ [decode K B e1]) @ map (decode K B) (drain_order ?cs q1), R, e',
                 filter (\<lambda>x. type x \<notin> set ?cs) q1)" by blast
    moreover have "filter (\<lambda>x. type x \<notin> set ?cs) q1 = filter (\<lambda>x. type x \<notin> set ?cs) q"
      using f by simp
    ultimately show ?thesis
      by (subst event_get_loop.simps)
        (simp add: pg f(1,5) PyEvent_New_native [OF native(1)])
  next
    assume f: "n = 0" "e1 = e" "q1 = q" "\<forall>x \<in> set q. type x \<notin> set ?cs"
    then have "filter (\<lambda>x. type x \<notin> set ?cs) q = q" by (simp add: filter_id_conv)
    with f drain_order_none [OF f(4)] show ?thesis
      by (subst event_get_loop.simps) (simp add: pg)
  qed
qed

lemma codes_legacy: "scanned_codes legacy initial_band PGE_ALLEVENTS =
  [0x200, 0x300, 0x301, 0x400, 0x401, 0x402, 0x600, 0x601, 0x602, 0x603, 0x604, 0x100, 0x201,
   0x200, 0x200, 0, 1, 2, 3, 4, 5, 6]"
  by code_simp

lemma legacy_range: "1 \<le> PGE_NUMEVENTS legacy" "PGE_NUMEVENTS legacy \<le> 32"
  by (simp_all add: legacy_def)

lemma native_examples:
  "\<not> user_posted (keydown ts r)" "\<not> user_posted (window_ev sub)" "\<not> user_posted (keyup ts)"
  by (simp_all add: user_posted_def keydown_def window_ev_def keyup_def zero_event_def
      USEROBJECT_CHECK1_def)

lemma drain_two:
  "drain_order (scanned_codes legacy initial_band PGE_ALLEVENTS)
     [keydown 5 0, window_ev SDL_WINDOWEVENT_RESIZED]
   = [window_ev SDL_WINDOWEVENT_RESIZED, keydown 5 0]"
  "filter (\<lambda>x. type x \<notin> set (scanned_codes legacy initial_band PGE_ALLEVENTS))
     [keydown 5 0, window_ev SDL_WINDOWEVENT_RESIZED] = []"
  unfolding codes_legacy
  by (simp_all add: keydown_def window_ev_def SDL_type_defs)

text \<open>
  C10, as the code has it. Each call of \<open>PG_PeepEvents\<close> for one event, to take or to
  peek, is a scan of native codes: those of the pygame types from 1 up selected by the
  mask, in ascending order of the pygame type, one native peep per code, ended by the
  first peep that finds an event. Bit 0 of the mask changes nothing: type 0 is never
  scanned. So \<open>clear\<close> removes exactly the events bearing a scanned code, and \<open>get\<close>
  returns them grouped by native code in the order of the scan, in arrival order inside
  a group. The types that share a native code (active, resize and expose events are all
  native window events) form one group, taken at the lowest of these types.
\<close>

theorem get_and_clear_scan_order:
  assumes "1 \<le> PGE_NUMEVENTS K" and "PGE_NUMEVENTS K \<le> 32"
  shows "PG_PeepEvents K B True SDL_GETEVENT mask0 e q
        = Done (scan_codes SDL_GETEVENT (scanned_codes K B mask0) e q)
    \<and> PG_PeepEvents K B True SDL_PEEKEVENT mask0 e q
        = Done (scan_codes SDL_PEEKEVENT (scanned_codes K B mask0) e q)
    \<and> PG_PeepEvents K B ok action (mask0 OR 1) e q = PG_PeepEvents K B ok action mask0 e q
    \<and> (\<exists>e'. event_clear_loop K B True mask0 e q
          = Done (e', filter (\<lambda>x. type x \<notin> set (scanned_codes K B mask0)) q))
    \<and> ((\<forall>x \<in> set q. \<not> user_posted x) \<longrightarrow>
         (\<exists>e'. event_get_loop K B True mask0 R e q []
            = Done (map (decode K B) (drain_order (scanned_codes K B mask0) q), R, e',
                    filter (\<lambda>x. type x \<notin> set (scanned_codes K B mask0)) q)))"
proof -
  have g: "(\<forall>x \<in> set q. \<not> user_posted x) \<longrightarrow>
         (\<exists>e'. event_get_loop K B True mask0 R e q []
            = Done (map (decode K B) (drain_order (scanned_codes K B mask0) q), R, e',
                    filter (\<lambda>x. type x \<notin> set (scanned_codes K B mask0)) q))"
    using event_get_loop_drains [OF assms, of q B mask0 R e "[]"] by simp
  from PG_PeepEvents_scan [OF assms, of SDL_GETEVENT B mask0 e q]
    PG_PeepEvents_scan [OF assms, of SDL_PEEKEVENT B mask0 e q]
    PG_PeepEvents_bit0 [of K B ok action mask0 e q]
    event_clear_loop_drains [OF assms, of B mask0 e q] g
  show ?thesis by simp
qed

theorem get_and_clear_scan_order_witness:
  "1 \<le> PGE_NUMEVENTS legacy \<and> PGE_NUMEVENTS legacy \<le> 32
   \<and> \<not> user_posted (keydown 5 0) \<and> \<not> user_posted (window_ev SDL_WINDOWEVENT_RESIZED)
   \<and> (\<exists>e'. event_clear_loop legacy initial_band True PGE_ALLEVENTS zero_event
          [keydown 5 0, window_ev SDL_WINDOWEVENT_RESIZED] = Done (e', []))
   \<and> (\<exists>e'. event_get_loop legacy initial_band True PGE_ALLEVENTS empty_registry zero_event
          [keydown 5 0, window_ev SDL_WINDOWEVENT_RESIZED] []
        = Done ([decode legacy initial_band (window_ev SDL_WINDOWEVENT_RESIZED),
                 decode legacy initial_band (keydown 5 0)], empty_registry, e', []))"
proof -
  have n: "\<forall>x \<in> set [keydown 5 0, window_ev SDL_WINDOWEVENT_RESIZED]. \<not> user_posted x"
    by (simp add: native_examples)
  from get_and_clear_scan_order [OF legacy_range, of initial_band PGE_ALLEVENTS zero_event
      "[keydown 5 0, window_ev SDL_WINDOWEVENT_RESIZED]" True SDL_GETEVENT empty_registry]
  show ?thesis
    using n legacy_range native_examples unfolding drain_two by simp
qed

text \<open>
  The claim as stated fails on a key press followed by a resize of the window:
  \<open>get ()\<close> returns the resize event (type 16) before the key press (type 2), because
  the resize is a native window event and is taken when the scan is at type 1.
\<close>

theorem get_order_counterexample:
  "event_get legacy zero_event [] two_events
     = Done (Return (Ret_List [decode legacy initial_band (window_ev SDL_WINDOWEVENT_RESIZED),
                               decode legacy initial_band (keydown 5 0)]),
             two_events\<lparr>queue := []\<rparr>)
   \<and> pe_type (decode legacy initial_band (window_ev SDL_WINDOWEVENT_RESIZED)) = 16
   \<and> pe_type (decode legacy initial_band (keydown 5 0)) = 2"
proof -
  have n: "\<forall>x \<in> set [keydown 5 0, window_ev SDL_WINDOWEVENT_RESIZED]. \<not> user_posted x"
    by (simp add: native_examples)
  from event_get_loop_drains [OF legacy_range n, of initial_band PGE_ALLEVENTS empty_registry
      zero_event "[]"]
  obtain e' where l: "event_get_loop legacy initial_band True PGE_ALLEVENTS empty_registry
      zero_event [keydown 5 0, window_ev SDL_WINDOWEVENT_RESIZED] []
    = Done ([decode legacy initial_band (window_ev SDL_WINDOWEVENT_RESIZED),
             decode legacy initial_band (keydown 5 0)], empty_registry, e', [])"
    unfolding drain_two by auto
  have t: "pe_type (decode legacy initial_band (window_ev SDL_WINDOWEVENT_RESIZED)) = 16"
    "pe_type (decode legacy initial_band (keydown 5 0)) = 2"
    by (simp_all add: decode_def sdl_to_pg_def window_ev_def keydown_def SDL_type_defs
        SDL_window_defs legacy_def)
  have "event_get legacy zero_event [] two_events
     = Done (Return (Ret_List [decode legacy initial_band (window_ev SDL_WINDOWEVENT_RESIZED),
                               decode legacy initial_band (keydown 5 0)]),
             two_events\<lparr>queue := []\<rparr>)"
    by (simp add: event_get_def two_events_def initial_state_def type_filter_mask_def l)
  with t show ?thesis by simp
qed

section \<open>Peeking at an empty queue\<close>

lemma scan_codes_empty:
  "action \<noteq> SDL_ADDEVENT \<Longrightarrow> scan_codes action cs e [] = (0, e, [])"
  by (induction cs) (cases action; simp add: SDL_PeepEvents_def)+

lemma PG_PeepEvents_empty:
  assumes "1 \<le> PGE_NUMEVENTS K" and "PGE_NUMEVENTS K \<le> 32" and "action \<noteq> SDL_ADDEVENT"
  shows "PG_PeepEvents K B True action mask0 e [] = Done (0, e, [])"
  using PG_PeepEvents_scan [OF assms, of B mask0 e "[]"] scan_codes_empty [OF assms(3)]
  by simp

lemma getobject_empty: "user_event_getobject p empty_registry = Done (None, empty_registry)"
  by (simp add: user_event_getobject_def empty_registry_def)

lemma PyEvent_New_empty_registry:
  "PyEvent_New K B empty_registry (Some e)
     = Done (decode K B e, empty_registry, Some (snd (dict_generic K B e)))"
  unfolding PyEvent_New_def dict_from_event_def decode_def
  by (auto simp: getobject_empty split: prod.splits)

lemma word_ge_minus_1: "(x :: 32 word) \<ge> - 1 \<Longrightarrow> x = - 1"
  by (simp add: word_order.extremum_unique)

lemma sdl_to_pg_default:
  assumes "type e \<notin> {SDL_WINDOWEVENT, SDL_KEYDOWN, SDL_KEYUP, SDL_MOUSEMOTION,
      SDL_MOUSEBUTTONDOWN, SDL_MOUSEBUTTONUP, SDL_JOYAXISMOTION, SDL_JOYBALLMOTION,
      SDL_JOYHATMOTION, SDL_JOYBUTTONDOWN, SDL_JOYBUTTONUP, SDL_QUIT, SDL_SYSWMEVENT}"
  shows "sdl_to_pg K B e =
     (if type e \<ge> first_user_event B \<and> type e \<le> last_user_event B
      then sint (type e - first_user_event B + word_of_int (PGE_USEREVENT K))
      else PGE_OTHEREVENT K)"
  using assms unfolding sdl_to_pg_def by simp

lemma sdl_to_pg_window_legacy:
  "type e = SDL_WINDOWEVENT \<Longrightarrow> sdl_to_pg legacy B e \<in> {1, 16, 17, 14}"
  unfolding sdl_to_pg_def by (simp add: legacy_def)

lemma sdl_to_pg_legacy_nonzero: "sdl_to_pg legacy initial_band e \<noteq> PGE_NOEVENT legacy"
proof -
  have z: "PGE_NOEVENT legacy = 0" by (simp add: legacy_def)
  consider (w) "type e = SDL_WINDOWEVENT"
    | (c) "type e \<in> {SDL_KEYDOWN, SDL_KEYUP, SDL_MOUSEMOTION,
      SDL_MOUSEBUTTONDOWN, SDL_MOUSEBUTTONUP, SDL_JOYAXISMOTION, SDL_JOYBALLMOTION,
      SDL_JOYHATMOTION, SDL_JOYBUTTONDOWN, SDL_JOYBUTTONUP, SDL_QUIT, SDL_SYSWMEVENT}"
    | (d) "type e \<notin> {SDL_WINDOWEVENT, SDL_KEYDOWN, SDL_KEYUP, SDL_MOUSEMOTION,
      SDL_MOUSEBUTTONDOWN, SDL_MOUSEBUTTONUP, SDL_JOYAXISMOTION, SDL_JOYBALLMOTION,
      SDL_JOYHATMOTION, SDL_JOYBUTTONDOWN, SDL_JOYBUTTONUP, SDL_QUIT, SDL_SYSWMEVENT}"
    by blast
  then show ?thesis
  proof cases
    case w
    from sdl_to_pg_window_legacy [OF w, of initial_band] show ?thesis
      unfolding z by auto
  next
    case c
    then show ?thesis
      unfolding z by (auto simp: sdl_to_pg_codes legacy_def)
  next
    case d
    show ?thesis
    proof (cases "type e = - 1")
      case True
      then show ?thesis
        unfolding sdl_to_pg_default [OF d] z
        by (simp add: initial_band_def PGE_NON_SDL_EVENT_def legacy_def)
    next
      case False
      then have "\<not> type e \<ge> - 1" using word_ge_minus_1 by blast
      then show ?thesis
        unfolding sdl_to_pg_default [OF d] z
        by (simp add: initial_band_def PGE_NON_SDL_EVENT_def legacy_def)
    qed
  qed
qed

text \<open>
  C8, where the code departs from it. With no argument and nothing pending
  \<open>event_peek\<close> decodes its own buffer, which the native peep left untouched: whatever
  the buffer holds, the event returned has not the no-op type, while \<open>pygame_poll\<close> on
  the same state returns the no-op event.
\<close>

theorem peek_empty_queue:
  "event_peek legacy e0 [] initial_state
     = Done (Return (Ret_Event (decode legacy initial_band e0)), initial_state)
   \<and> pe_type (decode legacy initial_band e0) \<noteq> PGE_NOEVENT legacy
   \<and> decode legacy initial_band e0 \<noteq> noevent legacy
   \<and> pygame_poll legacy e0 initial_state
     = Done (Return (Ret_Event (noevent legacy)), initial_state)"
proof -
  have p: "PG_PeepEvents legacy initial_band True SDL_PEEKEVENT PGE_ALLEVENTS e0 []
      = Done (0, e0, [])"
    by (rule PG_PeepEvents_empty [OF legacy_range]) simp
  have a: "event_peek legacy e0 [] initial_state
     = Done (Return (Ret_Event (decode legacy initial_band e0)), initial_state)"
    by (simp add: event_peek_def initial_state_def type_filter_mask_def p
        PyEvent_New_empty_registry)
  have b: "pe_type (decode legacy initial_band e0) \<noteq> PGE_NOEVENT legacy"
    by (simp add: decode_def sdl_to_pg_legacy_nonzero)
  then have c: "decode legacy initial_band e0 \<noteq> noevent legacy"
    by (auto simp: noevent_def)
  have d: "pygame_poll legacy e0 initial_state
     = Done (Return (Ret_Event (noevent legacy)), initial_state)"
    by (simp add: pygame_poll_def initial_state_def PyEvent_New_def noevent_def)
  from a b c d show ?thesis by simp
qed

section \<open>Waiting\<close>

text \<open>
  C2, where the code departs from it. An event that arrives leaves the loop of
  \<open>Py_WaitEvent\<close> without entering its body, so \<open>pygame_wait\<close> returns it decoded
  whatever the repeat state says, and leaves the repeat state as it was. The body runs
  on a failed wait only, on what the buffer holds: \<open>pygame_wait\<close> then raises, unless
  the buffer holds a key press that the body suppresses, in which case the failure is
  dropped and the wait starts again.
\<close>

theorem pygame_wait_arrival_unfiltered:
  assumes "video_init S"
  shows "(\<not> user_posted e \<longrightarrow>
            pygame_wait K e0 (Arrives e # ws) S
              = Done (Return (Ret_Event (decode K (user_band S) e)), S, ws))
    \<and> (type e0 \<noteq> SDL_KEYDOWN \<longrightarrow>
            pygame_wait K e0 (WaitFails # ws) S = Done (RAISE PyExc_SDLError, S, ws))
    \<and> (type e0 = SDL_KEYDOWN \<and> key_repeat e0 \<noteq> 0 \<and> \<not> repeat_enabled (repeat S) \<longrightarrow>
            pygame_wait K e0 (WaitFails # ws) S = pygame_wait K e0 ws S)"
  using assms
  by (simp add: pygame_wait_def Py_WaitEvent_def PyEvent_New_native)

theorem pygame_wait_arrival_unfiltered_witness:
  "video_init after_fresh_keydown \<and> \<not> user_posted (keydown 1100 1)
   \<and> pygame_wait legacy zero_event [Arrives (keydown 1100 1), Arrives (keyup 1200)]
         after_fresh_keydown
       = Done (Return (Ret_Event (decode legacy initial_band (keydown 1100 1))),
               after_fresh_keydown, [Arrives (keyup 1200)])
   \<and> pe_type (decode legacy initial_band (keydown 1100 1)) = PGE_KEYDOWN legacy
   \<and> fst (spec_repeat_step 500 100 (True, 1000) 1100)
   \<and> type zero_event \<noteq> SDL_KEYDOWN
   \<and> pygame_wait legacy zero_event [WaitFails] after_fresh_keydown
       = Done (RAISE PyExc_SDLError, after_fresh_keydown, [])
   \<and> video_init initial_state \<and> type (keydown 0 1) = SDL_KEYDOWN
   \<and> key_repeat (keydown 0 1) \<noteq> 0 \<and> \<not> repeat_enabled (repeat initial_state)
   \<and> pygame_wait legacy (keydown 0 1) [WaitFails, Arrives (keyup 1200)] initial_state
       = Done (Return (Ret_Event (decode legacy initial_band (keyup 1200))),
               initial_state, [])"
proof -
  have v: "video_init after_fresh_keydown" "video_init initial_state"
    "user_band after_fresh_keydown = initial_band" "user_band initial_state = initial_band"
    "\<not> repeat_enabled (repeat initial_state)"
    by (simp_all add: after_fresh_keydown_def initial_state_def repeat_enabled_def)
  have k: "type zero_event \<noteq> SDL_KEYDOWN" "type (keydown 0 1) = SDL_KEYDOWN"
    "key_repeat (keydown 0 1) \<noteq> 0"
    by (simp_all add: zero_event_def keydown_def SDL_type_defs)
  have t: "pe_type (decode legacy initial_band (keydown 1100 1)) = PGE_KEYDOWN legacy"
    by (simp add: decode_def sdl_to_pg_def keydown_def SDL_type_defs)
  have s: "fst (spec_repeat_step 500 100 (True, 1000) 1100)"
    by (simp add: spec_repeat_step_def)
  from pygame_wait_arrival_unfiltered [OF v(1), of "keydown 1100 1" legacy zero_event
      "[Arrives (keyup 1200)]"]
    pygame_wait_arrival_unfiltered [OF v(1), of "keydown 1100 1" legacy zero_event "[]"]
    pygame_wait_arrival_unfiltered [OF v(2), of "keyup 1200" legacy "keydown 0 1" "[]"]
    pygame_wait_arrival_unfiltered [OF v(2), of "keyup 1200" legacy "keydown 0 1"
      "[Arrives (keyup 1200)]"]
  show ?thesis
    using v k t s native_examples by simp
qed

section \<open>Blocking\<close>

text \<open>
  C4, where the code departs from it. \<open>set_blocked\<close> and \<open>get_blocked\<close> hand the
  pygame type number to \<open>SDL_EventState\<close> as if it were a native code, while
  \<open>event_post\<close> asks for the state of the native code the type translates to. After
  \<open>set_blocked ([2])\<close> (2 is the key-press type) \<open>get_blocked ([2])\<close> returns 1, and
  the post of an event of type 2 returns \<open>None\<close> and pushes an event on the queue.
\<close>

theorem blocked_type_still_posted:
  "set_blocked legacy [PyTuple [PyInt 2]] initial_state
     = Done (Return Py_None, initial_state\<lparr>ignored := {2}\<rparr>)
   \<and> PGE_KEYDOWN legacy = 2 \<and> CheckEventInRange legacy 2
   \<and> get_blocked legacy [PyTuple [PyInt 2]] (initial_state\<lparr>ignored := {2}\<rparr>)
     = Done (Return (Ret_Int 1), initial_state\<lparr>ignored := {2}\<rparr>)
   \<and> (\<exists>S'. event_post legacy 16 zero_event \<lparr>pe_type = 2, pe_dict = Some Map.empty\<rparr>
               (initial_state\<lparr>ignored := {2}\<rparr>) = Done (Return Py_None, S')
          \<and> map type (queue S') = [2] \<and> map user_data2 (queue S') = [16])"
proof -
  have a: "set_blocked legacy [PyTuple [PyInt 2]] initial_state
     = Done (Return Py_None, initial_state\<lparr>ignored := {2}\<rparr>)"
    by (simp add: set_blocked_def initial_state_def CheckEventInRange_def legacy_def
        SDL_EventState_def SDL_IGNORE_def SDL_ENABLE_def Uint8_code_def)
  have b: "PGE_KEYDOWN legacy = 2" "CheckEventInRange legacy 2"
    by (simp_all add: legacy_def CheckEventInRange_def)
  have c: "get_blocked legacy [PyTuple [PyInt 2]] (initial_state\<lparr>ignored := {2}\<rparr>)
     = Done (Return (Ret_Int 1), initial_state\<lparr>ignored := {2}\<rparr>)"
    by (simp add: get_blocked_def initial_state_def CheckEventInRange_def legacy_def
        SDL_EventState_def SDL_IGNORE_def SDL_ENABLE_def SDL_QUERY_def Uint8_code_def
        bool_int_def)
  have d: "\<exists>S'. event_post legacy 16 zero_event \<lparr>pe_type = 2, pe_dict = Some Map.empty\<rparr>
               (initial_state\<lparr>ignored := {2}\<rparr>) = Done (Return Py_None, S')
          \<and> map type (queue S') = [2] \<and> map user_data2 (queue S') = [16]"
    by (simp add: event_post_def initial_state_def legacy_def pg_to_sdl_def pg_type_to_sdl_def
        SDL_EventState_def SDL_IGNORE_def SDL_ENABLE_def SDL_QUERY_def Let_def SDL_type_defs
        PyEvent_FillUserEvent_def user_event_addobject_def NULL_def SDL_PushEvent_def
        empty_registry_def returned_def)
  from a b c d show ?thesis by simp
qed

end
